theory Spec2Isabelle
  imports Main "HOL-Library.Char_ord" "HOL-Library.List_Lexorder" "HOL-Library.Multiset"
begin

section \<open>Errors\<close>

text \<open>
  The error values of the Go code.  \<open>ErrBadPattern\<close> is the only error of the pattern
  matcher; \<open>NoSuchHost name\<close> is \<^verbatim>\<open>fmt.Errorf("no such host: %s", name)\<close>;
  \<open>NoSuchDriver kind\<close> is \<^verbatim>\<open>fmt.Errorf("No such driver %q", driverName)\<close>;
  \<open>Panic e\<close> is \<^verbatim>\<open>panic(err)\<close>; \<open>NilDereference\<close> is the run-time panic of a read
  through a nil pointer; the remaining ones come from the file system and from the hook
  drivers.
\<close>

datatype error =
    ErrBadPattern
  | NoSuchHost string
  | NoSuchDriver string
  | Panic error
  | NilDereference
  | IOError string
  | DriverError string

fun isPanic :: "error \<Rightarrow> bool" where
  "isPanic (Panic e) = True"
| "isPanic NilDereference = True"
| "isPanic e = False"

section \<open>Strings\<close>

text \<open>
  \<^verbatim>\<open>strings.Replace(s, old, new, -1)\<close> for a non-empty \<open>old\<close>: every non-overlapping
  occurrence, from the left.  The code only calls it with the two-byte tokens
  \<^verbatim>\<open>%h\<close> and \<^verbatim>\<open>%n\<close>.
\<close>

function strings_Replace :: "string \<Rightarrow> string \<Rightarrow> string \<Rightarrow> string" where
  "strings_Replace s old new =
     (if old = [] \<or> s = [] then s
      else if take (length old) s = old
        then new @ strings_Replace (drop (length old) s) old new
        else hd s # strings_Replace (tl s) old new)"
  by pat_completeness auto
termination
  by (relation "measure (\<lambda>(s, old, new). length s)") auto

declare strings_Replace.simps [simp del]

text \<open>
  \<^verbatim>\<open>strings.SplitN(path, "/", 2)\<close>: the part before the first slash, and the part after
  it when there is a slash.
\<close>

definition splitN2 :: "string \<Rightarrow> string \<times> string option" where
  "splitN2 p =
     (let a = takeWhile (\<lambda>c. c \<noteq> CHR ''/'') p; b = dropWhile (\<lambda>c. c \<noteq> CHR ''/'') p
      in (a, if b = [] then None else Some (tl b)))"

text \<open>\<^verbatim>\<open>strings.Split(s, sep)\<close> for a one-byte separator, and \<^verbatim>\<open>strings.Join\<close>.\<close>

fun strings_Split :: "string \<Rightarrow> char \<Rightarrow> string list" where
  "strings_Split [] sep = [[]]"
| "strings_Split (c # cs) sep =
     (if c = sep then [] # strings_Split cs sep
      else (case strings_Split cs sep of
              [] \<Rightarrow> [[c]]
            | w # ws \<Rightarrow> (c # w) # ws))"

fun strings_Join :: "string list \<Rightarrow> string \<Rightarrow> string" where
  "strings_Join [] sep = []"
| "strings_Join [w] sep = w"
| "strings_Join (w # ws) sep = w @ sep @ strings_Join ws sep"

section \<open>The pattern matcher\<close>

text \<open>
  Modelled from the spec: the matcher is Go's \<^verbatim>\<open>path.Match\<close>, a standard-library
  function that is not part of the repository.  The spec gives its contract:
  shell-glob syntax applied to whole names (\<^verbatim>\<open>*\<close> any run of characters,
  \<^verbatim>\<open>?\<close> one character, \<^verbatim>\<open>[...]\<close> a class), and an error only on malformed
  pattern syntax.  The details below (no wildcard matches a slash, \<^verbatim>\<open>^\<close> negates a
  class, \<^verbatim>\<open>lo-hi\<close> is a range, a backslash quotes the next byte, a class is
  non-empty and closed) are those of \<^verbatim>\<open>path.Match\<close>; bytes stand for characters.
\<close>

datatype item = Star | AnyChar | Class bool "(char \<times> char) list" | Lit char

fun getEsc :: "string \<Rightarrow> (char \<times> string) option" where
  "getEsc [] = None"
| "getEsc (c # cs) =
     (if c = CHR ''-'' \<or> c = CHR '']'' then None
      else (case (if c = CHR 0x5C then cs else c # cs) of
              [] \<Rightarrow> None
            | r # rest \<Rightarrow> if rest = [] then None else Some (r, rest)))"

lemma getEsc_shorter: "getEsc chunk = Some (r, rest) \<Longrightarrow> length rest < length chunk"
  by (cases chunk) (auto split: if_splits list.splits)

function scanClass :: "string \<Rightarrow> (char \<times> char) list \<Rightarrow> ((char \<times> char) list \<times> string) option" where
  "scanClass chunk rs =
     (if chunk \<noteq> [] \<and> hd chunk = CHR '']'' \<and> rs \<noteq> [] then Some (rs, tl chunk)
      else (case getEsc chunk of
              None \<Rightarrow> None
            | Some (lo, c1) \<Rightarrow>
                if hd c1 = CHR ''-''
                then (case getEsc (tl c1) of
                        None \<Rightarrow> None
                      | Some (hi, c2) \<Rightarrow> scanClass c2 (rs @ [(lo, hi)]))
                else scanClass c1 (rs @ [(lo, lo)])))"
  by pat_completeness auto
termination
proof (relation "measure (\<lambda>(chunk, rs). length chunk)", goal_cases)
  case 1
  show ?case by simp
next
  case (2 chunk rs x2 lo c1 x2a hi c2)
  then have "getEsc chunk = Some (lo, c1)" and "getEsc (tl c1) = Some (hi, c2)"
    by simp_all
  then have "length c1 < length chunk" and "length c2 < length (tl c1)"
    by (auto dest: getEsc_shorter)
  then show ?case by simp
next
  case (3 chunk rs x2 lo c1)
  then have "getEsc chunk = Some (lo, c1)" by simp
  then have "length c1 < length chunk" by (rule getEsc_shorter)
  then show ?case by simp
qed

declare scanClass.simps [simp del]

lemma scanClass_shorter: "scanClass chunk rs = Some (rs', rest) \<Longrightarrow> length rest < length chunk"
proof (induction chunk rs rule: scanClass.induct)
  case (1 chunk rs)
  show ?case
  proof (cases "chunk \<noteq> [] \<and> hd chunk = CHR '']'' \<and> rs \<noteq> []")
    case True
    with "1.prems" have "rest = tl chunk"
      by (simp add: scanClass.simps [of chunk rs])
    with True show ?thesis by (cases chunk) auto
  next
    case False
    then have unf: "scanClass chunk rs =
        (case getEsc chunk of
              None \<Rightarrow> None
            | Some (lo, c1) \<Rightarrow>
                if hd c1 = CHR ''-''
                then (case getEsc (tl c1) of
                        None \<Rightarrow> None
                      | Some (hi, c2) \<Rightarrow> scanClass c2 (rs @ [(lo, hi)]))
                else scanClass c1 (rs @ [(lo, lo)]))"
      by (subst scanClass.simps) auto
    from "1.prems" unf obtain lo c1 where g1: "getEsc chunk = Some (lo, c1)"
      by (cases "getEsc chunk") auto
    have l1: "length c1 < length chunk" using g1 by (rule getEsc_shorter)
    show ?thesis
    proof (cases "hd c1 = CHR ''-''")
      case True
      with "1.prems" unf g1 obtain hi c2 where g2: "getEsc (tl c1) = Some (hi, c2)"
        by (cases "getEsc (tl c1)") auto
      have l2: "length c2 < length (tl c1)" using g2 by (rule getEsc_shorter)
      from "1.prems" unf g1 g2 True have "scanClass c2 (rs @ [(lo, hi)]) = Some (rs', rest)"
        by simp
      with "1.IH"(1) [OF False g1 refl True g2 refl]
      have "length rest < length c2" by simp
      with l1 l2 show ?thesis by simp
    next
      case F2: False
      from "1.prems" unf g1 F2 have "scanClass c1 (rs @ [(lo, lo)]) = Some (rs', rest)"
        by simp
      with "1.IH"(2) [OF False g1 refl F2]
      have "length rest < length c1" by simp
      with l1 show ?thesis by simp
    qed
  qed
qed

function scanPattern :: "string \<Rightarrow> item list option" where
  "scanPattern p =
     (case p of
        [] \<Rightarrow> Some []
      | c # cs \<Rightarrow>
          if c = CHR ''*'' then map_option ((#) Star) (scanPattern cs)
          else if c = CHR ''?'' then map_option ((#) AnyChar) (scanPattern cs)
          else if c = CHR ''['' then
            (let neg = (cs \<noteq> [] \<and> hd cs = CHR ''^'');
                 body = (if neg then tl cs else cs)
             in case scanClass body [] of
                  None \<Rightarrow> None
                | Some (rs, rest) \<Rightarrow> map_option ((#) (Class neg rs)) (scanPattern rest))
          else if c = CHR 0x5C then
            (case cs of
               [] \<Rightarrow> None
             | q # rest \<Rightarrow> map_option ((#) (Lit q)) (scanPattern rest))
          else map_option ((#) (Lit c)) (scanPattern cs))"
  by pat_completeness auto
termination
proof (relation "measure length", goal_cases)
  case (4 p c cs neg body x2 rs rest)
  then have "scanClass body [] = Some (rs, rest)" by simp
  then have "length rest < length body" by (rule scanClass_shorter)
  moreover have "length body \<le> length cs" using 4 by (cases cs) auto
  ultimately show ?case using 4 by simp
qed auto

declare scanPattern.simps [simp del]

fun inRange :: "char \<Rightarrow> char \<times> char \<Rightarrow> bool" where
  "inRange r (lo, hi) = (lo \<le> r \<and> r \<le> hi)"

fun matchItems :: "item list \<Rightarrow> string \<Rightarrow> bool" where
  "matchItems [] s = (s = [])"
| "matchItems (Star # is) [] = matchItems is []"
| "matchItems (Star # is) (c # cs) =
     (matchItems is (c # cs) \<or> (c \<noteq> CHR ''/'' \<and> matchItems (Star # is) cs))"
| "matchItems (AnyChar # is) [] = False"
| "matchItems (AnyChar # is) (c # cs) = (c \<noteq> CHR ''/'' \<and> matchItems is cs)"
| "matchItems (Class neg rs # is) [] = False"
| "matchItems (Class neg rs # is) (c # cs) =
     ((list_ex (inRange c) rs \<noteq> neg) \<and> matchItems is cs)"
| "matchItems (Lit x # is) [] = False"
| "matchItems (Lit x # is) (c # cs) = (x = c \<and> matchItems is cs)"

text \<open>
  \<open>scanPattern\<close> reads the pattern into its items, or finds it malformed (\<open>None\<close>);
  \<open>pathMatch\<close> is \<^verbatim>\<open>path.Match(pattern, name)\<close>, whose only error is
  \<^verbatim>\<open>ErrBadPattern\<close>.  This matcher reports a malformed pattern whatever the name is, as
  the documented contract of \<^verbatim>\<open>path.Match\<close> has it; older releases of the library
  report it only when the matching reaches the malformed part, and answer no-match with
  no error when the name differs before that.  The spec promises one direction only: an
  error means a malformed pattern.  The statements about the code below therefore take
  the answer of the matcher for the pattern and the name at hand as their hypothesis.
\<close>

definition pathMatch :: "string \<Rightarrow> string \<Rightarrow> error + bool" where
  "pathMatch pat nm =
     (case scanPattern pat of
        None \<Rightarrow> Inl ErrBadPattern
      | Some items \<Rightarrow> Inr (matchItems items nm))"

section \<open>The data model\<close>

text \<open>
  Modelled from the spec: the \<^verbatim>\<open>Host\<close> struct and its methods live in a file of the
  package that is not among the sources.  The record keeps the fields that
  \<^verbatim>\<open>wrapper.go\<close> reads and writes (\<^verbatim>\<open>HostName\<close>, \<^verbatim>\<open>Aliases\<close>, \<^verbatim>\<open>Inherits\<close>,
  \<^verbatim>\<open>Gateways\<close>, \<^verbatim>\<open>pattern\<close>, \<^verbatim>\<open>name\<close>, \<^verbatim>\<open>inputName\<close>, \<^verbatim>\<open>inherited\<close>,
  \<^verbatim>\<open>knownHosts\<close>, \<^verbatim>\<open>isTemplate\<close>, \<^verbatim>\<open>isDefault\<close>), as the spec lists them, and one
  plain connection option, \<^verbatim>\<open>User\<close>, standing for the ssh options.  \<^verbatim>\<open>inherited\<close> is
  a \<^verbatim>\<open>map[string]bool\<close> that only ever stores \<^verbatim>\<open>true\<close> and is only asked whether a
  key is present: a set of names.
\<close>

record Host =
  HostName :: string
  User :: string
  Aliases :: "string list"
  Inherits :: "string list"
  Gateways :: "string list"
  pattern :: string
  name :: string
  inputName :: string
  isDefault :: bool
  isTemplate :: bool
  inherited :: "string set"
  knownHosts :: "string list"

text \<open>
  A Go map is an association list with distinct keys: \<open>map_of\<close> is the lookup
  \<^verbatim>\<open>m[key]\<close>, and the order of the list is the order in which a \<^verbatim>\<open>range\<close> statement
  happens to visit the entries.  Go leaves that order unspecified, so two lists with the
  same entries in another order stand for the same map.  The values of \<^verbatim>\<open>Hosts\<close> and
  \<^verbatim>\<open>Templates\<close> are pointers that \<^verbatim>\<open>applyMissingNames\<close> has made non-nil.
\<close>

record Config =
  Hosts :: "(string \<times> Host) list"
  Templates :: "(string \<times> Host) list"
  Defaults :: Host
  Includes :: "string list"
  ASSHKnownHostFile :: string
  ASSHBinaryPath :: string
  includedFiles :: "(string \<times> bool) list"
  sshConfigPath :: string

text \<open>Modelled from the spec: \<^verbatim>\<open>NewHost(name)\<close>, a blank Host that carries the name.\<close>

definition NewHost :: "string \<Rightarrow> Host" where
  "NewHost nm =
     \<lparr>HostName = [], User = [], Aliases = [], Inherits = [], Gateways = [],
      pattern = [], name = nm, inputName = [], isDefault = False, isTemplate = False,
      inherited = {}, knownHosts = []\<rparr>"

text \<open>
  Modelled from the spec: \<^verbatim>\<open>Host.ApplyDefaults(defaults)\<close>, the zero-value-fill merge:
  an attribute of the receiver that is at its zero value (an empty string, an empty list)
  takes the value of \<open>defaults\<close>; an attribute already set is left alone.  The internal
  fields are not attributes and stay the receiver's.
\<close>

definition ApplyDefaults :: "Host \<Rightarrow> Host \<Rightarrow> Host" where
  "ApplyDefaults h defaults =
     h\<lparr>HostName := (if HostName h = [] then HostName defaults else HostName h),
       User := (if User h = [] then User defaults else User h),
       Aliases := (if Aliases h = [] then Aliases defaults else Aliases h),
       Inherits := (if Inherits h = [] then Inherits defaults else Inherits h),
       Gateways := (if Gateways h = [] then Gateways defaults else Gateways h)\<rparr>"

text \<open>
  Modelled from the spec: \<^verbatim>\<open>Host.ExpandString(input)\<close>, the placeholder substitution
  with the Host's own attributes as context: \<^verbatim>\<open>%name\<close> is the name under which the
  host is resolved, \<^verbatim>\<open>%n\<close> the name the caller asked for, \<^verbatim>\<open>%h\<close> the address.
\<close>

definition ExpandString :: "Host \<Rightarrow> string \<Rightarrow> string" where
  "ExpandString h input =
     strings_Replace
       (strings_Replace (strings_Replace input ''%name'' (name h)) ''%n'' (inputName h))
       ''%h'' (HostName h)"

text \<open>Modelled from the spec: \<^verbatim>\<open>Host.AddKnownHost(target)\<close> records a literal name.\<close>

definition AddKnownHost :: "Host \<Rightarrow> string \<Rightarrow> Host" where
  "AddKnownHost h target = h\<lparr>knownHosts := knownHosts h @ [target]\<rparr>"

section \<open>Resolution: \<^verbatim>\<open>getHostByName\<close>, \<^verbatim>\<open>getHostByPath\<close>, \<^verbatim>\<open>computeHost\<close>\<close>

text \<open>
  The inner loop of \<^verbatim>\<open>getHostByName\<close> over \<^verbatim>\<open>patterns\<close>: \<open>Inl err\<close> when
  \<^verbatim>\<open>path.Match\<close> fails (the function returns the error), \<open>Inr True\<close> at the first
  pattern that matches, \<open>Inr False\<close> when the loop runs to its end.
\<close>

fun matchPatterns :: "string list \<Rightarrow> string \<Rightarrow> error + bool" where
  "matchPatterns [] nm = Inr False"
| "matchPatterns (pat # pats) nm =
     (case pathMatch pat nm of
        Inl err \<Rightarrow> Inl err
      | Inr matched \<Rightarrow> if matched then Inr True else matchPatterns pats nm)"

text \<open>
  The loop over \<^verbatim>\<open>c.Hosts\<close>, each host tried under its key and then its aliases
  (\<^verbatim>\<open>append([]string{origPattern}, host.Aliases...)\<close>); the result is the host at which
  the loop is left, or \<open>None\<close> when it runs to its end.
\<close>

fun matchHosts :: "(string \<times> Host) list \<Rightarrow> string \<Rightarrow> error + Host option" where
  "matchHosts [] nm = Inr None"
| "matchHosts ((origPattern, host) # rest) nm =
     (case matchPatterns (origPattern # Aliases host) nm of
        Inl err \<Rightarrow> Inl err
      | Inr matched \<Rightarrow> if matched then Inr (Some host) else matchHosts rest nm)"

text \<open>The loop over \<^verbatim>\<open>c.Templates\<close>: a template is tried under its key only.\<close>

fun matchTemplates :: "(string \<times> Host) list \<Rightarrow> string \<Rightarrow> error + Host option" where
  "matchTemplates [] nm = Inr None"
| "matchTemplates ((pat, template) # rest) nm =
     (case pathMatch pat nm of
        Inl err \<Rightarrow> Inl err
      | Inr matched \<Rightarrow> if matched then Inr (Some template) else matchTemplates rest nm)"

text \<open>
  The \<^verbatim>\<open>fullCompute\<close> tail of \<^verbatim>\<open>computeHost\<close>: the global defaults, the address
  defaulting to the name, and the token expansion.  The error of \<^verbatim>\<open>path.Match\<close> is
  dropped there (\<^verbatim>\<open>match, _ := path.Match(...)\<close>).
\<close>

definition fullComputeTail :: "Config \<Rightarrow> string \<Rightarrow> Host \<Rightarrow> Host" where
  "fullComputeTail config nm computedHost =
     (let h1 = ApplyDefaults computedHost (Defaults config);
          h2 = (if HostName h1 = [] then h1\<lparr>HostName := nm\<rparr> else h1);
          hostname = strings_Replace (HostName h2) ''%h'' ''%n'';
          pat = strings_Replace hostname ''%n'' ''*''
      in if pathMatch pat (inputName h2) = Inr True
         then h2\<lparr>HostName := inputName h2\<rparr>
         else h2\<lparr>HostName := ExpandString h2 hostname\<rparr>)"

text \<open>
  \<^verbatim>\<open>computeHost\<close>, \<^verbatim>\<open>getHostByPath\<close> and \<^verbatim>\<open>getHostByName\<close> call one another, and
  nothing in the code bounds the depth of the calls.  The first argument is fuel: the
  number of nested \<^verbatim>\<open>computeHost\<close> activations still allowed.  \<open>None\<close> means the fuel
  ran out; \<open>Some (Inl e)\<close> is an error return or a panic; \<open>Some (Inr h)\<close> is the host
  returned.  \<open>inheritLoop\<close> is the \<^verbatim>\<open>for _, name := range host.Inherits\<close> loop of
  \<^verbatim>\<open>computeHost\<close>, with the working copy as its state: an error of \<^verbatim>\<open>getHostByPath\<close>
  is logged and the loop goes on, a panic unwinds.
\<close>

function (sequential) computeHost :: "nat \<Rightarrow> Host option \<Rightarrow> Config \<Rightarrow> string \<Rightarrow> bool \<Rightarrow> (error + Host) option"
  and inheritLoop :: "nat \<Rightarrow> Config \<Rightarrow> string list \<Rightarrow> Host \<Rightarrow> (error + Host) option"
  and getHostByPath :: "nat \<Rightarrow> Config \<Rightarrow> string \<Rightarrow> bool \<Rightarrow> bool \<Rightarrow> bool \<Rightarrow> (error + Host) option"
  and getHostByName :: "nat \<Rightarrow> Config \<Rightarrow> string \<Rightarrow> bool \<Rightarrow> bool \<Rightarrow> bool \<Rightarrow> (error + Host) option"
where
  "computeHost 0 host config nm fullCompute = None"
| "computeHost (Suc n) None config nm fullCompute = Some (Inl NilDereference)"
| "computeHost (Suc n) (Some host) config nm fullCompute =
     (case inheritLoop n config (Inherits host) (host\<lparr>name := nm, inherited := {nm}\<rparr>) of
        None \<Rightarrow> None
      | Some (Inl e) \<Rightarrow> Some (Inl e)
      | Some (Inr computedHost) \<Rightarrow>
          Some (Inr (if fullCompute then fullComputeTail config nm computedHost
                     else computedHost)))"
| "inheritLoop n config [] computedHost = Some (Inr computedHost)"
| "inheritLoop n config (parent # rest) computedHost =
     (if parent \<in> inherited computedHost then inheritLoop n config rest computedHost
      else
        (case getHostByPath n config parent False False True of
           None \<Rightarrow> None
         | Some (Inl err) \<Rightarrow>
             if isPanic err then Some (Inl err)
             else inheritLoop n config rest
                    (computedHost\<lparr>inherited := insert parent (inherited computedHost)\<rparr>)
         | Some (Inr target) \<Rightarrow>
             inheritLoop n config rest
               (ApplyDefaults
                  (computedHost\<lparr>inherited := insert parent (inherited computedHost)\<rparr>)
                  target)))"
| "getHostByPath n c path safe compute allowTemplate =
     (case getHostByName n c (fst (splitN2 path)) safe compute allowTemplate of
        None \<Rightarrow> None
      | Some (Inl err) \<Rightarrow> Some (Inl err)
      | Some (Inr host) \<Rightarrow>
          (case snd (splitN2 path) of
             None \<Rightarrow> Some (Inr host)
           | Some gw \<Rightarrow> Some (Inr (host\<lparr>Gateways := [gw]\<rparr>))))"
| "getHostByName n c nm safe compute allowTemplate =
     (case map_of (Hosts c) nm of
        Some host \<Rightarrow> computeHost n (Some host) c nm compute
      | None \<Rightarrow>
          (case matchHosts (Hosts c) nm of
             Inl err \<Rightarrow> Some (Inl err)
           | Inr (Some host) \<Rightarrow> computeHost n (Some host) c nm compute
           | Inr None \<Rightarrow>
               (case (if allowTemplate then matchTemplates (Templates c) nm else Inr None) of
                  Inl err \<Rightarrow> Some (Inl err)
                | Inr (Some template) \<Rightarrow> computeHost n (Some template) c nm compute
                | Inr None \<Rightarrow>
                    if safe
                    then computeHost n (Some ((NewHost nm)\<lparr>HostName := nm\<rparr>)) c nm compute
                    else Some (Inl (NoSuchHost nm)))))"

  by pat_completeness auto
termination
  by (relation "inv_image (less_than <*lex*> less_than <*lex*> less_than)
       (\<lambda>x. case x of
          Inl (Inl (n, host, config, nm, fullCompute)) \<Rightarrow> (n, 0::nat, 0::nat)
        | Inl (Inr (n, config, parents, computedHost)) \<Rightarrow> (n, 3, length parents)
        | Inr (Inl (n, c, path, safe, compute, allowTemplate)) \<Rightarrow> (n, 2, 0)
        | Inr (Inr (n, c, nm, safe, compute, allowTemplate)) \<Rightarrow> (n, 1, 0))")
     auto

declare getHostByName.simps [simp del] getHostByPath.simps [simp del]

section \<open>The lookups that cannot fail\<close>

text \<open>
  \<^verbatim>\<open>GetGatewaySafe\<close>, \<^verbatim>\<open>GetHost\<close> and \<^verbatim>\<open>GetHostSafe\<close>.  The two safe lookups
  \<^verbatim>\<open>panic(err)\<close> on an error of the lookup.
\<close>

definition GetGatewaySafe :: "nat \<Rightarrow> Config \<Rightarrow> string \<Rightarrow> (error + Host) option" where
  "GetGatewaySafe n c nm =
     (case getHostByName n c nm True True False of
        None \<Rightarrow> None
      | Some (Inl err) \<Rightarrow> Some (Inl (if isPanic err then err else Panic err))
      | Some (Inr host) \<Rightarrow> Some (Inr host))"

definition GetHost :: "nat \<Rightarrow> Config \<Rightarrow> string \<Rightarrow> (error + Host) option" where
  "GetHost n c nm = getHostByPath n c nm False True False"

definition GetHostSafe :: "nat \<Rightarrow> Config \<Rightarrow> string \<Rightarrow> (error + Host) option" where
  "GetHostSafe n c nm =
     (case getHostByPath n c nm True True False of
        None \<Rightarrow> None
      | Some (Inl err) \<Rightarrow> Some (Inl (if isPanic err then err else Panic err))
      | Some (Inr host) \<Rightarrow> Some (Inr host))"

section \<open>The known-host cache and the staleness detector\<close>

text \<open>
  The file system as the code sees it.  \<open>expandUser\<close> is \<^verbatim>\<open>utils.ExpandUser\<close> (a
  function of the repository that is not among the sources), \<open>modTime\<close> is
  \<^verbatim>\<open>os.Stat(path).ModTime()\<close>, and \<open>fileLines path\<close> holds the lines of a file that
  \<^verbatim>\<open>os.OpenFile(path, O_RDWR|O_APPEND|O_CREATE, 0660)\<close> can open (\<open>Some []\<close> for one it
  creates), \<open>None\<close> when the call fails.
\<close>

record World =
  expandUser :: "string \<Rightarrow> error + string"
  modTime :: "string \<Rightarrow> error + nat"
  fileLines :: "string \<Rightarrow> string list option"

text \<open>
  \<^verbatim>\<open>addKnownHost\<close>: \<^verbatim>\<open>inst\<close> is the pointer stored in the map, so
  \<^verbatim>\<open>inst.AddKnownHost(target)\<close> changes the entry in place.
\<close>

fun setHost :: "(string \<times> Host) list \<Rightarrow> string \<Rightarrow> Host \<Rightarrow> (string \<times> Host) list" where
  "setHost [] k v = []"
| "setHost ((k', h) # rest) k v = (if k' = k then (k', v) # rest else (k', h) # setHost rest k v)"

definition addKnownHost :: "nat \<Rightarrow> Config \<Rightarrow> string \<Rightarrow> (error + Config) option" where
  "addKnownHost n c target =
     (case GetHostSafe n c target of
        None \<Rightarrow> None
      | Some (Inl err) \<Rightarrow> Some (Inl err)
      | Some (Inr host) \<Rightarrow>
          (case map_of (Hosts c) (pattern host) of
             Some inst \<Rightarrow>
               Some (Inr (c\<lparr>Hosts := setHost (Hosts c) (pattern host) (AddKnownHost inst target)\<rparr>))
           | None \<Rightarrow> Some (Inr c)))"

text \<open>
  \<^verbatim>\<open>SaveNewKnownHost\<close>: an error of \<^verbatim>\<open>ExpandUser\<close> is logged and the function goes on
  with the empty path; an error of \<^verbatim>\<open>OpenFile\<close> is logged and the function returns;
  otherwise the target is appended as one line.
\<close>

definition SaveNewKnownHost :: "nat \<Rightarrow> Config \<Rightarrow> World \<Rightarrow> string \<Rightarrow> (error + Config \<times> World) option" where
  "SaveNewKnownHost n c w target =
     (case addKnownHost n c target of
        None \<Rightarrow> None
      | Some (Inl err) \<Rightarrow> Some (Inl err)
      | Some (Inr c') \<Rightarrow>
          (let path = (case expandUser w (ASSHKnownHostFile c') of Inl err \<Rightarrow> [] | Inr p \<Rightarrow> p)
           in case fileLines w path of
                None \<Rightarrow> Some (Inr (c', w))
              | Some ls \<Rightarrow>
                  Some (Inr (c', w\<lparr>fileLines := (fileLines w)(path := Some (ls @ [target]))\<rparr>))))"

text \<open>
  \<^verbatim>\<open>isSSHConfigOutdated\<close>: the loop over the included files stops at the first file
  that cannot be read or that is newer than the generated output.
\<close>

fun newerThan :: "World \<Rightarrow> nat \<Rightarrow> string list \<Rightarrow> bool \<times> error option" where
  "newerThan w sshConfigModTime [] = (False, None)"
| "newerThan w sshConfigModTime (filepath # rest) =
     (case modTime w filepath of
        Inl err \<Rightarrow> (False, Some err)
      | Inr t \<Rightarrow> if sshConfigModTime < t then (True, None)
                 else newerThan w sshConfigModTime rest)"

definition isSSHConfigOutdated :: "Config \<Rightarrow> World \<Rightarrow> bool \<times> error option" where
  "isSSHConfigOutdated c w =
     (case expandUser w (sshConfigPath c) of
        Inl err \<Rightarrow> (False, Some err)
      | Inr filepath \<Rightarrow>
          (case modTime w filepath of
             Inl err \<Rightarrow> (False, Some err)
           | Inr sshConfigModTime \<Rightarrow>
               newerThan w sshConfigModTime (map fst (includedFiles c))))"

text \<open>
  \<^verbatim>\<open>needsARebuildForTarget\<close>.  \<open>aliasList\<close> holds the keys of the \<^verbatim>\<open>aliases\<close> map,
  \<open>patternList\<close> is the \<^verbatim>\<open>patterns\<close> slice.  In the loop over the patterns an error of
  \<^verbatim>\<open>path.Match\<close> is skipped with \<^verbatim>\<open>continue\<close>.
\<close>

definition aliasList :: "Config \<Rightarrow> string list" where
  "aliasList c = concat (map (\<lambda>(k, host). Aliases host @ knownHosts host) (Hosts c))"

definition patternList :: "Config \<Rightarrow> string list" where
  "patternList c = concat (map (\<lambda>(origPattern, host). origPattern # Aliases host) (Hosts c))"

fun anyPatternMatches :: "string list \<Rightarrow> string \<Rightarrow> bool" where
  "anyPatternMatches [] part = False"
| "anyPatternMatches (pat # pats) part =
     (case pathMatch pat part of
        Inl err \<Rightarrow> anyPatternMatches pats part
      | Inr matched \<Rightarrow> if matched then True else anyPatternMatches pats part)"

fun rebuildParts :: "Config \<Rightarrow> string list \<Rightarrow> bool" where
  "rebuildParts c [] = False"
| "rebuildParts c (part # rest) =
     (if map_of (Hosts c) part \<noteq> None then rebuildParts c rest
      else if part \<in> set (aliasList c) then rebuildParts c rest
      else if anyPatternMatches (patternList c) part then True
      else rebuildParts c rest)"

definition needsARebuildForTarget :: "Config \<Rightarrow> string \<Rightarrow> bool" where
  "needsARebuildForTarget c target = rebuildParts c (strings_Split target (CHR ''/''))"

text \<open>
  \<^verbatim>\<open>IsConfigOutdated\<close> returns the pair \<^verbatim>\<open>(bool, error)\<close>, here with the configuration
  and the file system as it leaves them.
\<close>

definition IsConfigOutdated ::
  "nat \<Rightarrow> Config \<Rightarrow> World \<Rightarrow> string \<Rightarrow> (error + (bool \<times> error option) \<times> Config \<times> World) option" where
  "IsConfigOutdated n c w target =
     (if needsARebuildForTarget c target
      then (case SaveNewKnownHost n c w target of
              None \<Rightarrow> None
            | Some (Inl err) \<Rightarrow> Some (Inl err)
            | Some (Inr (c', w')) \<Rightarrow> Some (Inr ((True, None), c', w')))
      else Some (Inr (isSSHConfigOutdated c w, c, w)))"

section \<open>The serializer\<close>

text \<open>\<^verbatim>\<open>sortedNames\<close>: the keys of \<^verbatim>\<open>c.Hosts\<close>, sorted as \<^verbatim>\<open>sort.StringSlice\<close> sorts
  (bytewise lexicographic order).\<close>

definition sortedNames :: "Config \<Rightarrow> string list" where
  "sortedNames c = sort (map fst (Hosts c))"

text \<open>The header literal of \<^verbatim>\<open>WriteSSHConfigTo\<close> after \<^verbatim>\<open>strings.TrimSpace\<close>.\<close>

definition headerTemplate :: string where
  "headerTemplate =
     ''# This file was automatically generated by assh v%VERSION'' @ [CHR 0x0A] @
     ''# on %BUILD_DATE, based on ~/.ssh/assh.yml'' @ [CHR 0x0A] @
     ''#'' @ [CHR 0x0A] @
     ''# more info: https://github.com/noqqe/advanced-ssh-config''"

text \<open>
  The loop over \<^verbatim>\<open>c.sortedNames()\<close>: each host is computed with
  \<^verbatim>\<open>fullCompute = false\<close>, its block is written, then an empty line.  \<open>wr\<close> is
  \<^verbatim>\<open>Host.WriteSSHConfigTo\<close>, the printer of one block, which is not among the sources:
  the text it writes for a Host.  The result is the text written by the loop.
\<close>

fun writeHosts :: "nat \<Rightarrow> (Host \<Rightarrow> string) \<Rightarrow> Config \<Rightarrow> string list \<Rightarrow> (error + string) option" where
  "writeHosts n wr c [] = Some (Inr [])"
| "writeHosts n wr c (nm # rest) =
     (case computeHost n (map_of (Hosts c) nm) c nm False of
        None \<Rightarrow> None
      | Some (Inl err) \<Rightarrow> Some (Inl err)
      | Some (Inr computedHost) \<Rightarrow>
          (case writeHosts n wr c rest of
             None \<Rightarrow> None
           | Some (Inl err) \<Rightarrow> Some (Inl err)
           | Some (Inr out) \<Rightarrow> Some (Inr (wr computedHost @ [CHR 0x0A] @ out))))"

text \<open>
  \<^verbatim>\<open>WriteSSHConfigTo\<close>.  \<open>ver\<close> is \<^verbatim>\<open>version.VERSION\<close> and \<open>now\<close> is the formatted
  \<^verbatim>\<open>time.Now()\<close>.  The result is the text written and the configuration as the call
  leaves it (\<^verbatim>\<open>c.Defaults.name = "*"\<close>).
\<close>

definition WriteSSHConfigTo ::
  "nat \<Rightarrow> string \<Rightarrow> string \<Rightarrow> (Host \<Rightarrow> string) \<Rightarrow> Config \<Rightarrow> (error + string \<times> Config) option" where
  "WriteSSHConfigTo n ver now wr c =
     (let header = strings_Replace (strings_Replace headerTemplate ''%VERSION'' ver)
                     ''%BUILD_DATE'' now
      in case writeHosts n wr c (sortedNames c) of
           None \<Rightarrow> None
         | Some (Inl err) \<Rightarrow> Some (Inl err)
         | Some (Inr blocks) \<Rightarrow>
             Some (Inr (header @ [CHR 0x0A] @ [CHR 0x0A] @
                        ''# host-based configuration'' @ [CHR 0x0A] @
                        blocks @
                        ''# global configuration'' @ [CHR 0x0A] @
                        wr ((Defaults c)\<lparr>name := ''*''\<rparr>),
                        c\<lparr>Defaults := (Defaults c)\<lparr>name := ''*''\<rparr>\<rparr>)))"

section \<open>The hook dispatcher\<close>

text \<open>
  The three driver constructors and the bodies of \<^verbatim>\<open>Run\<close> and \<^verbatim>\<open>Close\<close> are not among
  the sources; they are the fields of a kit.  \<open>'d\<close> is a driver, \<open>'a\<close> the \<^verbatim>\<open>RunArgs\<close>,
  \<open>'w\<close> whatever the drivers act on.  Next to \<open>'w\<close> the state keeps the list of the calls
  made to \<^verbatim>\<open>Run\<close> and \<^verbatim>\<open>Close\<close>, in order.
\<close>

datatype 'd event = Ran 'd | Closed 'd

record ('d, 'a, 'w) DriverKit =
  NewWriteDriver :: "string \<Rightarrow> error + 'd"
  NewExecDriver :: "string \<Rightarrow> error + 'd"
  NewDaemonDriver :: "string \<Rightarrow> error + 'd"
  Run :: "'d \<Rightarrow> 'a \<Rightarrow> 'w \<Rightarrow> error option \<times> 'w"
  Close :: "'d \<Rightarrow> 'w \<Rightarrow> error option \<times> 'w"

definition New :: "('d, 'a, 'w) DriverKit \<Rightarrow> string \<Rightarrow> error + 'd" where
  "New kit expr =
     (let driverName = hd (strings_Split expr (CHR '' ''));
          param = strings_Join (tl (strings_Split expr (CHR '' ''))) '' ''
      in if driverName = ''write'' then NewWriteDriver kit param
         else if driverName = ''exec'' then NewExecDriver kit param
         else if driverName = ''daemon'' then NewDaemonDriver kit param
         else Inl (NoSuchDriver driverName))"

text \<open>The first loop of \<^verbatim>\<open>InvokeAll\<close>: one driver per expression, or the first error.\<close>

fun newDrivers :: "('d, 'a, 'w) DriverKit \<Rightarrow> string list \<Rightarrow> 'd list \<Rightarrow> error + 'd list" where
  "newDrivers kit [] drivers = Inr drivers"
| "newDrivers kit (expr # rest) drivers =
     (case New kit expr of
        Inl err \<Rightarrow> Inl err
      | Inr driver \<Rightarrow> newDrivers kit rest (drivers @ [driver]))"

text \<open>The second loop: \<^verbatim>\<open>Run\<close> on each driver in order, left at the first error.\<close>

fun runDrivers ::
  "('d, 'a, 'w) DriverKit \<Rightarrow> 'a \<Rightarrow> 'd list \<Rightarrow> 'w \<times> 'd event list \<Rightarrow> error option \<times> 'w \<times> 'd event list" where
  "runDrivers kit args [] st = (None, st)"
| "runDrivers kit args (driver # rest) st =
     (case Run kit driver args (fst st) of
        (Some err, w') \<Rightarrow> (Some err, (w', snd st @ [Ran driver]))
      | (None, w') \<Rightarrow> runDrivers kit args rest (w', snd st @ [Ran driver]))"

text \<open>
  \<^verbatim>\<open>InvokeAll\<close> returns \<^verbatim>\<open>(HookDrivers, error)\<close>; the nil slice of the two error returns
  is the empty list.
\<close>

definition InvokeAll ::
  "('d, 'a, 'w) DriverKit \<Rightarrow> string list \<Rightarrow> 'a \<Rightarrow> 'w \<times> 'd event list
     \<Rightarrow> ('d list \<times> error option) \<times> 'w \<times> 'd event list" where
  "InvokeAll kit h args st =
     (case newDrivers kit h [] of
        Inl err \<Rightarrow> (([], Some err), st)
      | Inr drivers \<Rightarrow>
          (case runDrivers kit args drivers st of
             (Some err, st') \<Rightarrow> (([], Some err), st')
           | (None, st') \<Rightarrow> ((drivers, None), st')))"

text \<open>\<^verbatim>\<open>HookDrivers.Close\<close>: every driver is closed, the errors are collected.\<close>

fun HookDrivers_Close ::
  "('d, 'a, 'w) DriverKit \<Rightarrow> 'd list \<Rightarrow> 'w \<times> 'd event list \<Rightarrow> error list \<times> 'w \<times> 'd event list" where
  "HookDrivers_Close kit [] st = ([], st)"
| "HookDrivers_Close kit (driver # rest) st =
     (case Close kit driver (fst st) of
        (r, w') \<Rightarrow>
          (case HookDrivers_Close kit rest (w', snd st @ [Closed driver]) of
             (errs, st') \<Rightarrow> ((case r of None \<Rightarrow> [] | Some err \<Rightarrow> [err]) @ errs, st')))"

section \<open>Sample inputs, and notions used in the statements\<close>

text \<open>A kit for the hook dispatcher: a driver is the text of its kind and parameter;
  an \<^verbatim>\<open>exec\<close> driver needs a command, and running the command \<^verbatim>\<open>false\<close> fails.\<close>

definition sampleKit :: "(string, unit, unit) DriverKit" where
  "sampleKit =
     \<lparr>NewWriteDriver = (\<lambda>param. Inr (''write:'' @ param)),
      NewExecDriver = (\<lambda>param. if param = [] then Inl (DriverError ''empty command'')
                               else Inr (''exec:'' @ param)),
      NewDaemonDriver = (\<lambda>param. Inr (''daemon:'' @ param)),
      Run = (\<lambda>driver args w.
               (if driver = ''exec:false'' then Some (DriverError ''exit status 1'') else None, w)),
      Close = (\<lambda>driver w. (None, w))\<rparr>"

text \<open>\<^verbatim>\<open>New()\<close>: the empty configuration with its default paths.\<close>

definition config_New :: Config where
  "config_New =
     \<lparr>Hosts = [], Templates = [], Defaults = NewHost [], Includes = [],
      ASSHKnownHostFile = ''~/.ssh/assh_known_hosts'', ASSHBinaryPath = [],
      includedFiles = [], sshConfigPath = ''~/.ssh/config''\<rparr>"

text \<open>A host as \<^verbatim>\<open>applyMissingNames\<close> leaves it: registered under \<open>key\<close>.\<close>

definition namedHost :: "string \<Rightarrow> Host" where
  "namedHost key = (NewHost key)\<lparr>pattern := key\<rparr>"

text \<open>Host A inherits from B and host B inherits from A.\<close>

definition cycleA :: Host where
  "cycleA = (namedHost ''A'')\<lparr>Inherits := [''B'']\<rparr>"

definition cycleB :: Host where
  "cycleB = (namedHost ''B'')\<lparr>Inherits := [''A''], User := ''bob''\<rparr>"

definition cycleConfig :: Config where
  "cycleConfig = config_New\<lparr>Hosts := [(''A'', cycleA), (''B'', cycleB)]\<rparr>"

text \<open>Host A inherits from B, B inherits from C; the address is set on C only.\<close>

definition chainA :: Host where
  "chainA = (namedHost ''A'')\<lparr>Inherits := [''B'']\<rparr>"

definition chainB :: Host where
  "chainB = (namedHost ''B'')\<lparr>Inherits := [''C''], User := ''bob''\<rparr>"

definition chainC :: Host where
  "chainC = (namedHost ''C'')\<lparr>HostName := ''1.2.3.4'', User := ''carol''\<rparr>"

definition chainConfig :: Config where
  "chainConfig = config_New\<lparr>Hosts := [(''A'', chainA), (''B'', chainB), (''C'', chainC)]\<rparr>"

text \<open>
  The patterns in the order in which \<^verbatim>\<open>getHostByName\<close> tries them, each with the host it
  stands for: the key of a host, then its aliases, host after host.
\<close>

definition hostPatterns :: "(string \<times> Host) list \<Rightarrow> (string \<times> Host) list" where
  "hostPatterns hs =
     concat (map (\<lambda>(origPattern, host). map (\<lambda>pat. (pat, host)) (origPattern # Aliases host)) hs)"

text \<open>A host registered under a malformed pattern: a class that is never closed.\<close>

definition badKeyConfig :: Config where
  "badKeyConfig = config_New\<lparr>Hosts := [(''['', namedHost ''['')]\<rparr>"

text \<open>A pattern host, a plain host and a template.\<close>

definition webHost :: Host where
  "webHost = (namedHost ''web*'')\<lparr>HostName := ''srv''\<rparr>"

definition tplHost :: Host where
  "tplHost = (namedHost ''tpl-*'')\<lparr>isTemplate := True, User := ''tux''\<rparr>"

definition siteConfig :: Config where
  "siteConfig = config_New\<lparr>Hosts := [(''web*'', webHost), (''db'', namedHost ''db'')],
                           Templates := [(''tpl-*'', tplHost)]\<rparr>"

text \<open>A pattern host with a malformed alias.\<close>

definition aliasHost :: Host where
  "aliasHost = (namedHost ''web*'')\<lparr>HostName := ''srv'', Aliases := [''['']\<rparr>"

definition aliasConfig :: Config where
  "aliasConfig = config_New\<lparr>Hosts := [(''web*'', aliasHost)]\<rparr>"

text \<open>A file system: paths expand to themselves, the generated output is newer than
  every other file, and the known-host cache file is there and empty.\<close>

definition sampleWorld :: World where
  "sampleWorld =
     \<lparr>expandUser = (\<lambda>p. Inr p),
      modTime = (\<lambda>p. if p = ''~/.ssh/config'' then Inr 10 else Inr 5),
      fileLines = (\<lambda>p. if p = ''~/.ssh/assh_known_hosts'' then Some [] else None)\<rparr>"

text \<open>The sample configuration, loaded from one source file; a file system whose
  generated output is older than that source; one whose cache file cannot be opened;
  and a configuration whose map yields a malformed key before the pattern host.\<close>

definition loadedConfig :: Config where
  "loadedConfig = siteConfig\<lparr>includedFiles := [(''~/.ssh/assh.yml'', True)]\<rparr>"

definition staleWorld :: World where
  "staleWorld = sampleWorld\<lparr>modTime := (\<lambda>p. if p = ''~/.ssh/config'' then Inr 5 else Inr 10)\<rparr>"

definition readonlyWorld :: World where
  "readonlyWorld = sampleWorld\<lparr>fileLines := (\<lambda>p. None)\<rparr>"

definition orderConfig :: Config where
  "orderConfig = config_New\<lparr>Hosts := [(''['', namedHost ''[''), (''web*'', webHost)]\<rparr>"

text \<open>The path of the known-host cache file as \<^verbatim>\<open>SaveNewKnownHost\<close> computes it.\<close>

definition knownHostPath :: "Config \<Rightarrow> World \<Rightarrow> string" where
  "knownHostPath c w = (case expandUser w (ASSHKnownHostFile c) of Inl err \<Rightarrow> [] | Inr p \<Rightarrow> p)"

text \<open>
  The text that the loop of \<^verbatim>\<open>WriteSSHConfigTo\<close> writes for one name: the block of the
  host registered under it, computed with \<^verbatim>\<open>fullCompute = false\<close>, and an empty line.
\<close>

definition hostBlock :: "nat \<Rightarrow> (Host \<Rightarrow> string) \<Rightarrow> Config \<Rightarrow> string \<Rightarrow> string" where
  "hostBlock n wr c nm =
     (case computeHost n (map_of (Hosts c) nm) c nm False of
        Some (Inr computedHost) \<Rightarrow> wr computedHost @ [CHR 0x0A]
      | _ \<Rightarrow> [])"

text \<open>A printer of one block: the \<^verbatim>\<open>Host\<close> line, the user and the address.\<close>

definition sampleBlock :: "Host \<Rightarrow> string" where
  "sampleBlock h =
     ''Host '' @ name h @ [CHR 0x0A] @
     (if User h = [] then [] else ''  User '' @ User h @ [CHR 0x0A]) @
     (if HostName h = [] then [] else ''  # HostName: '' @ HostName h @ [CHR 0x0A])"

text \<open>
  Two pattern hosts that both match the name \<open>ab\<close>, and a host that inherits from
  \<open>ab\<close>; and the same map with its first two entries visited in the other order.
\<close>

definition starA :: Host where
  "starA = (namedHost ''a*'')\<lparr>User := ''alice''\<rparr>"

definition starB :: Host where
  "starB = (namedHost ''*b'')\<lparr>User := ''bob''\<rparr>"

definition hostX :: Host where
  "hostX = (namedHost ''x'')\<lparr>Inherits := [''ab'']\<rparr>"

definition overlapConfig :: Config where
  "overlapConfig = config_New\<lparr>Hosts := [(''a*'', starA), (''*b'', starB), (''x'', hostX)]\<rparr>"

definition overlapConfig' :: Config where
  "overlapConfig' = config_New\<lparr>Hosts := [(''*b'', starB), (''a*'', starA), (''x'', hostX)]\<rparr>"

section \<open>Properties of the resolution\<close>

lemma pathMatch_error: "pathMatch pat nm = Inl e \<Longrightarrow> e = ErrBadPattern"
  by (auto simp: pathMatch_def split: option.splits)

lemma matchPatterns_error: "matchPatterns pats nm = Inl e \<Longrightarrow> e = ErrBadPattern"
  by (induction pats) (auto split: sum.splits if_splits dest: pathMatch_error)

lemma matchHosts_error: "matchHosts hs nm = Inl e \<Longrightarrow> e = ErrBadPattern"
  by (induction hs nm rule: matchHosts.induct)
     (auto split: sum.splits if_splits dest: matchPatterns_error pathMatch_error)

lemma matchTemplates_error: "matchTemplates ts nm = Inl e \<Longrightarrow> e = ErrBadPattern"
  by (induction ts nm rule: matchTemplates.induct)
     (auto split: sum.splits if_splits dest: pathMatch_error)

lemma splitN2_noslash: "CHR ''/'' \<notin> set p \<Longrightarrow> splitN2 p = (p, None)"
  by (simp add: splitN2_def Let_def takeWhile_eq_all_conv dropWhile_eq_Nil_conv)

lemma getHostByPath_noslash:
  "CHR ''/'' \<notin> set p \<Longrightarrow>
   getHostByPath n c p safe compute allowTemplate = getHostByName n c p safe compute allowTemplate"
  by (simp add: getHostByPath.simps splitN2_noslash split: option.splits sum.splits)

lemma getHostByName_exact:
  "map_of (Hosts c) nm = Some host \<Longrightarrow>
   getHostByName n c nm safe compute allowTemplate = computeHost n (Some host) c nm compute"
  by (simp add: getHostByName.simps)

text \<open>
  The errors of the lookup functions are match errors and not-found errors; a call of
  \<open>computeHost\<close> on a host that is there returns no error at all.  The proofs go by
  induction on the fuel, one layer of the mutual recursion at a time.
\<close>

lemma getHostByName_errors:
  assumes IH: "\<And>h nm f e. computeHost n (Some h) c nm f \<noteq> Some (Inl e)"
    and "getHostByName n c nm safe compute allowTemplate = Some (Inl e)"
  shows "e = ErrBadPattern \<or> e = NoSuchHost nm"
  using assms(2) IH
  by (auto simp: getHostByName.simps split: option.splits sum.splits if_splits
           dest: matchHosts_error matchTemplates_error)

lemma getHostByPath_errors:
  assumes IH: "\<And>h nm f e. computeHost n (Some h) c nm f \<noteq> Some (Inl e)"
    and "getHostByPath n c p safe compute allowTemplate = Some (Inl e)"
  shows "\<not> isPanic e"
proof -
  from assms(2) have "getHostByName n c (fst (splitN2 p)) safe compute allowTemplate = Some (Inl e)"
    by (auto simp: getHostByPath.simps split: option.splits sum.splits)
  from getHostByName_errors [OF IH this] show ?thesis by auto
qed

lemma inheritLoop_no_error:
  assumes IH: "\<And>h nm f e. computeHost n (Some h) c nm f \<noteq> Some (Inl e)"
  shows "inheritLoop n c ps ch \<noteq> Some (Inl e)"
proof (induction ps arbitrary: ch)
  case Nil
  show ?case by simp
next
  case (Cons p ps)
  show ?case
    using Cons.IH getHostByPath_errors [OF IH]
    by (auto split: option.splits sum.splits)
qed

lemma computeHost_no_error: "computeHost n (Some h) c nm f \<noteq> Some (Inl e)"
proof (induction n arbitrary: h nm f e)
  case 0
  show ?case by simp
next
  case (Suc n)
  have "\<And>ps ch e. inheritLoop n c ps ch \<noteq> Some (Inl e)"
    by (rule inheritLoop_no_error) (rule Suc)
  then show ?case by (auto split: option.splits sum.splits)
qed

lemma inheritLoop_diverges:
  assumes "getHostByPath n c b False False True = None"
  shows "b \<in> set ps \<Longrightarrow> b \<notin> inherited ch \<Longrightarrow> inheritLoop n c ps ch = None"
proof (induction ps arbitrary: ch)
  case Nil
  then show ?case by simp
next
  case (Cons p ps)
  show ?case
  proof (cases "p = b")
    case True
    with Cons.prems assms show ?thesis by simp
  next
    case False
    with Cons.prems have b: "b \<in> set ps" by simp
    have inh: "inherited (ApplyDefaults x t) = inherited x" for x t
      by (simp add: ApplyDefaults_def)
    from False Cons.prems(2) Cons.IH [OF b] show ?thesis
      using getHostByPath_errors [OF computeHost_no_error]
      by (auto split: option.splits sum.splits simp: inh)
  qed
qed

lemma cycle_diverges:
  assumes "map_of (Hosts c) a = Some ha" and "map_of (Hosts c) b = Some hb"
    and "b \<in> set (Inherits ha)" and "a \<in> set (Inherits hb)" and "a \<noteq> b"
    and "CHR ''/'' \<notin> set a" and "CHR ''/'' \<notin> set b"
  shows "computeHost n (Some ha) c a fa = None \<and> computeHost n (Some hb) c b fb = None"
proof (induction n arbitrary: fa fb)
  case 0
  show ?case by simp
next
  case (Suc n)
  have pb: "getHostByPath n c b False False True = None"
    using Suc assms by (simp add: getHostByPath_noslash getHostByName_exact)
  have pa: "getHostByPath n c a False False True = None"
    using Suc assms by (simp add: getHostByPath_noslash getHostByName_exact)
  have "inheritLoop n c (Inherits ha) (ha\<lparr>name := a, inherited := {a}\<rparr>) = None"
    by (rule inheritLoop_diverges [OF pb]) (use assms in auto)
  moreover have "inheritLoop n c (Inherits hb) (hb\<lparr>name := b, inherited := {b}\<rparr>) = None"
    by (rule inheritLoop_diverges [OF pa]) (use assms in auto)
  ultimately show ?case by simp
qed


text \<open>
  C1.  Host A declares B in its \<^verbatim>\<open>Inherits\<close> list and host B declares A.  The visited
  set of \<^verbatim>\<open>computeHost\<close> is made anew in every call and seeded with the name of that
  call only, so the call for B does not know that A is being resolved, and calls
  \<^verbatim>\<open>computeHost\<close> for A again.  With any amount of fuel the resolution of A runs out of
  it: \<^verbatim>\<open>computeHost\<close> never returns, and neither does \<^verbatim>\<open>GetHost\<close>.
\<close>

theorem mutual_inheritance_never_returns:
  "\<forall>n fullCompute. computeHost n (Some cycleA) cycleConfig ''A'' fullCompute = None \<and>
                   GetHost n cycleConfig ''A'' = None"
proof (intro allI)
  fix n fullCompute
  have a: "map_of (Hosts cycleConfig) ''A'' = Some cycleA"
    and b: "map_of (Hosts cycleConfig) ''B'' = Some cycleB"
    by (simp_all add: cycleConfig_def config_New_def)
  have ia: "''B'' \<in> set (Inherits cycleA)" and ib: "''A'' \<in> set (Inherits cycleB)"
    by (simp_all add: cycleA_def cycleB_def)
  have div: "computeHost n (Some cycleA) cycleConfig ''A'' f = None" for f
    using cycle_diverges [OF a b ia ib, of n f] by simp
  have "GetHost n cycleConfig ''A'' = computeHost n (Some cycleA) cycleConfig ''A'' True"
    by (simp add: GetHost_def getHostByPath_noslash getHostByName_exact [OF a])
  with div show "computeHost n (Some cycleA) cycleConfig ''A'' fullCompute = None \<and>
                   GetHost n cycleConfig ''A'' = None"
    by simp
qed

lemma computeHost_leaf:
  "Inherits hg = [] \<Longrightarrow>
   computeHost (Suc n) (Some hg) c g False = Some (Inr (hg\<lparr>name := g, inherited := {g}\<rparr>))"
  by simp

lemma computeHost_one_parent:
  assumes "Inherits h = [p]" and "p \<noteq> nm" and "CHR ''/'' \<notin> set p"
    and "map_of (Hosts c) p = Some hp"
    and "computeHost n (Some hp) c p False = Some (Inr t)"
  shows "computeHost (Suc n) (Some h) c nm False =
           Some (Inr (ApplyDefaults (h\<lparr>name := nm, inherited := {p, nm}\<rparr>) t))"
  using assms by (simp add: getHostByPath_noslash getHostByName_exact)

text \<open>
  What the code computes along a chain: \<^verbatim>\<open>computeHost\<close> resolves a declared parent
  through \<^verbatim>\<open>getHostByPath\<close>, which ends in \<^verbatim>\<open>computeHost\<close> for the parent, and that
  call walks the parent's own \<^verbatim>\<open>Inherits\<close> list.  For a host \<open>ha\<close> resolved as \<open>a\<close>
  whose only parent is the host \<open>b\<close>, whose only parent is the host \<open>g\<close>, which has
  none: the result is \<open>ha\<close> filled from \<open>hb\<close> filled from \<open>hg\<close>.
\<close>

lemma computeHost_chain:
  assumes "map_of (Hosts c) b = Some hb" and "map_of (Hosts c) g = Some hg"
    and "Inherits ha = [b]" and "Inherits hb = [g]" and "Inherits hg = []"
    and "b \<noteq> a" and "g \<noteq> b" and "CHR ''/'' \<notin> set b" and "CHR ''/'' \<notin> set g"
  shows "computeHost (Suc (Suc (Suc n))) (Some ha) c a False =
           Some (Inr (ApplyDefaults (ha\<lparr>name := a, inherited := {b, a}\<rparr>)
                        (ApplyDefaults (hb\<lparr>name := b, inherited := {g, b}\<rparr>)
                           (hg\<lparr>name := g, inherited := {g}\<rparr>))))"
proof -
  have g: "computeHost (Suc n) (Some hg) c g False = Some (Inr (hg\<lparr>name := g, inherited := {g}\<rparr>))"
    using assms(5) by (rule computeHost_leaf)
  have b: "computeHost (Suc (Suc n)) (Some hb) c b False =
      Some (Inr (ApplyDefaults (hb\<lparr>name := b, inherited := {g, b}\<rparr>) (hg\<lparr>name := g, inherited := {g}\<rparr>)))"
    by (rule computeHost_one_parent [OF assms(4) assms(7) assms(9) assms(2) g])
  show ?thesis
    by (rule computeHost_one_parent [OF assms(3) assms(6) assms(8) assms(1) b])
qed

lemma chain_lookups:
  "map_of (Hosts chainConfig) ''B'' = Some chainB"
  "map_of (Hosts chainConfig) ''C'' = Some chainC"
  by (simp_all add: chainConfig_def config_New_def)

text \<open>
  C2.  Host A inherits from B and B inherits from C; A and B set no address, C does.
  The spec, like the comment on the loop (\<^verbatim>\<open>currently not resolving inherited hosts\<close>),
  has one level only: A filled from the fields that B sets itself, which leaves the
  address of A empty.  The code resolves B through \<^verbatim>\<open>computeHost\<close>, which walks the
  \<^verbatim>\<open>Inherits\<close> list of B in turn: the resolved A has the address of its grandparent C.
  It is the nested call that runs away in C1.
\<close>

theorem inheritance_reaches_grandparent:
  "HostName chainA = [] \<and> HostName chainB = [] \<and> HostName chainC = ''1.2.3.4'' \<and>
   Inherits chainA = [''B''] \<and> Inherits chainB = [''C''] \<and>
   map_option (map_sum id HostName) (computeHost 3 (Some chainA) chainConfig ''A'' False)
     = Some (Inr ''1.2.3.4'') \<and>
   HostName (ApplyDefaults (chainA\<lparr>name := ''A'', inherited := {''B'', ''A''}\<rparr>) chainB) = []"
proof -
  have i: "Inherits chainA = [''B'']" "Inherits chainB = [''C'']" "Inherits chainC = []"
    by (simp_all add: chainA_def chainB_def chainC_def namedHost_def NewHost_def)
  have "computeHost (Suc (Suc (Suc 0))) (Some chainA) chainConfig ''A'' False =
     Some (Inr (ApplyDefaults (chainA\<lparr>name := ''A'', inherited := {''B'', ''A''}\<rparr>)
                  (ApplyDefaults (chainB\<lparr>name := ''B'', inherited := {''C'', ''B''}\<rparr>)
                     (chainC\<lparr>name := ''C'', inherited := {''C''}\<rparr>))))"
    using chain_lookups i
    by (simp add: getHostByPath_noslash getHostByName_exact)
  then show ?thesis
    using i by (simp add: numeral_3_eq_3 ApplyDefaults_def chainA_def chainB_def chainC_def namedHost_def NewHost_def)
qed

lemma pathMatch_examples:
  "pathMatch ''['' nm = Inl ErrBadPattern"
  "pathMatch ''web*'' ''web1'' = Inr True"
  "pathMatch ''web*'' ''x'' = Inr False"
  "pathMatch ''db'' ''x'' = Inr False"
  "pathMatch ''db'' ''web1'' = Inr False"
  "pathMatch ''tpl-*'' ''tpl-a'' = Inr True"
  "pathMatch ''tpl-*'' ''x'' = Inr False"
  "pathMatch ''web*'' ''tpl-a'' = Inr False"
  "pathMatch ''db'' ''tpl-a'' = Inr False"
  by (simp_all add: pathMatch_def scanPattern.simps scanClass.simps)

lemma matchTemplates_skip:
  "\<forall>q\<in>set pre. pathMatch (fst q) nm = Inr False \<Longrightarrow>
   matchTemplates (pre @ rest) nm = matchTemplates rest nm"
  by (induction pre) auto

lemma matchTemplates_none:
  "\<forall>q\<in>set ts. pathMatch (fst q) nm = Inr False \<Longrightarrow> matchTemplates ts nm = Inr None"
  by (induction ts) auto

lemma matchTemplates_bad:
  "\<forall>q\<in>set pre. pathMatch (fst q) nm \<noteq> Inr True \<Longrightarrow> pathMatch pat nm = Inl err \<Longrightarrow>
   matchTemplates (pre @ (pat, h) # post) nm = Inl ErrBadPattern"
  by (induction pre) (auto split: sum.splits dest: pathMatch_error)

lemma matchPatterns_flat:
  "matchTemplates (map (\<lambda>pat. (pat, h)) pats @ rest) nm =
     (case matchPatterns pats nm of
        Inl err \<Rightarrow> Inl err
      | Inr matched \<Rightarrow> if matched then Inr (Some h) else matchTemplates rest nm)"
  by (induction pats) (auto split: sum.splits)

lemma matchHosts_flat: "matchHosts hs nm = matchTemplates (hostPatterns hs) nm"
proof (induction hs)
  case Nil
  show ?case by (simp add: hostPatterns_def)
next
  case (Cons kh hs)
  obtain k h where kh: "kh = (k, h)" by (cases kh)
  have "hostPatterns (kh # hs) = map (\<lambda>pat. (pat, h)) (k # Aliases h) @ hostPatterns hs"
    by (simp add: hostPatterns_def kh)
  then show ?case
    using Cons.IH matchPatterns_flat [of h "k # Aliases h" "hostPatterns hs" nm]
    by (simp add: kh split: sum.splits)
qed

lemma getHostByName_host_match:
  assumes "map_of (Hosts c) nm = None" and "hostPatterns (Hosts c) = pre @ (pat, host) # post"
    and "\<forall>q\<in>set pre. pathMatch (fst q) nm = Inr False" and "pathMatch pat nm = Inr True"
  shows "getHostByName n c nm safe compute allowTemplate = computeHost n (Some host) c nm compute"
proof -
  have "matchHosts (Hosts c) nm = Inr (Some host)"
    using assms by (simp add: matchHosts_flat matchTemplates_skip)
  with assms(1) show ?thesis by (simp add: getHostByName.simps)
qed

lemma getHostByName_host_error:
  assumes "map_of (Hosts c) nm = None" and "hostPatterns (Hosts c) = pre @ (pat, host) # post"
    and "\<forall>q\<in>set pre. pathMatch (fst q) nm \<noteq> Inr True" and "pathMatch pat nm = Inl err"
  shows "getHostByName n c nm safe compute allowTemplate = Some (Inl ErrBadPattern)"
proof -
  have "matchHosts (Hosts c) nm = Inl ErrBadPattern"
    using assms by (simp add: matchHosts_flat matchTemplates_bad)
  with assms(1) show ?thesis by (simp add: getHostByName.simps)
qed

lemma getHostByName_template_match:
  assumes "map_of (Hosts c) nm = None"
    and "\<forall>q\<in>set (hostPatterns (Hosts c)). pathMatch (fst q) nm = Inr False"
    and "Templates c = pre @ (pat, template) # post"
    and "\<forall>q\<in>set pre. pathMatch (fst q) nm = Inr False" and "pathMatch pat nm = Inr True"
  shows "getHostByName n c nm safe compute True = computeHost n (Some template) c nm compute"
proof -
  have "matchHosts (Hosts c) nm = Inr None"
    using assms(2) by (simp add: matchHosts_flat matchTemplates_none)
  moreover have "matchTemplates (Templates c) nm = Inr (Some template)"
    using assms by (simp add: matchTemplates_skip)
  ultimately show ?thesis using assms(1) by (simp add: getHostByName.simps)
qed

lemma getHostByName_template_error:
  assumes "map_of (Hosts c) nm = None"
    and "\<forall>q\<in>set (hostPatterns (Hosts c)). pathMatch (fst q) nm = Inr False"
    and "Templates c = pre @ (pat, template) # post"
    and "\<forall>q\<in>set pre. pathMatch (fst q) nm \<noteq> Inr True" and "pathMatch pat nm = Inl err"
  shows "getHostByName n c nm safe compute True = Some (Inl ErrBadPattern)"
proof -
  have "matchHosts (Hosts c) nm = Inr None"
    using assms(2) by (simp add: matchHosts_flat matchTemplates_none)
  moreover have "matchTemplates (Templates c) nm = Inl ErrBadPattern"
    using assms by (simp add: matchTemplates_bad)
  ultimately show ?thesis using assms(1) by (simp add: getHostByName.simps)
qed

lemma getHostByName_fallback:
  assumes "map_of (Hosts c) nm = None"
    and "\<forall>q\<in>set (hostPatterns (Hosts c)). pathMatch (fst q) nm = Inr False"
    and "allowTemplate \<longrightarrow> (\<forall>q\<in>set (Templates c). pathMatch (fst q) nm = Inr False)"
  shows "getHostByName n c nm safe compute allowTemplate =
           (if safe then computeHost n (Some ((NewHost nm)\<lparr>HostName := nm\<rparr>)) c nm compute
            else Some (Inl (NoSuchHost nm)))"
proof -
  have "matchHosts (Hosts c) nm = Inr None"
    using assms(2) by (simp add: matchHosts_flat matchTemplates_none)
  moreover have "allowTemplate \<Longrightarrow> matchTemplates (Templates c) nm = Inr None"
    using assms(3) by (simp add: matchTemplates_none)
  ultimately show ?thesis using assms(1) by (simp add: getHostByName.simps)
qed

text \<open>
  C3, as amended.  \<^verbatim>\<open>getHostByName\<close> tries, in this order, and stops at the first
  success: (1) the exact key in \<^verbatim>\<open>Hosts\<close>; (2) the patterns of \<^verbatim>\<open>Hosts\<close> in the order of
  \<open>hostPatterns\<close> (a key, then its aliases), where the first pattern that matches wins;
  (3) with the template fallback, the keys of \<^verbatim>\<open>Templates\<close> in the same way; (4) with the
  virtual-host fallback, a fresh Host with \<^verbatim>\<open>HostName = name\<close>; (5) otherwise the
  not-found error.  In each case the host found is handed to \<^verbatim>\<open>computeHost\<close>.  And in
  steps (2) and (3) a pattern on which the matcher fails, met before any pattern
  matches, ends the resolution with the match error: steps (4) and (5) are not reached.
\<close>

theorem getHostByName_resolution_order:
  "(map_of (Hosts c) nm = Some host \<longrightarrow>
      getHostByName n c nm safe compute allowTemplate = computeHost n (Some host) c nm compute) \<and>
   (map_of (Hosts c) nm = None \<and> hostPatterns (Hosts c) = pre @ (pat, host) # post \<and>
    (\<forall>q\<in>set pre. pathMatch (fst q) nm = Inr False) \<longrightarrow>
      (pathMatch pat nm = Inr True \<longrightarrow>
         getHostByName n c nm safe compute allowTemplate = computeHost n (Some host) c nm compute) \<and>
      (pathMatch pat nm = Inl err \<longrightarrow>
         getHostByName n c nm safe compute allowTemplate = Some (Inl err))) \<and>
   (map_of (Hosts c) nm = None \<and>
    (\<forall>q\<in>set (hostPatterns (Hosts c)). pathMatch (fst q) nm = Inr False) \<and>
    Templates c = tpre @ (tpat, template) # tpost \<and>
    (\<forall>q\<in>set tpre. pathMatch (fst q) nm = Inr False) \<longrightarrow>
      (pathMatch tpat nm = Inr True \<longrightarrow>
         getHostByName n c nm safe compute True = computeHost n (Some template) c nm compute) \<and>
      (pathMatch tpat nm = Inl err \<longrightarrow>
         getHostByName n c nm safe compute True = Some (Inl err))) \<and>
   (map_of (Hosts c) nm = None \<and>
    (\<forall>q\<in>set (hostPatterns (Hosts c)). pathMatch (fst q) nm = Inr False) \<and>
    (allowTemplate \<longrightarrow> (\<forall>q\<in>set (Templates c). pathMatch (fst q) nm = Inr False)) \<longrightarrow>
      getHostByName n c nm True compute allowTemplate =
        computeHost n (Some ((NewHost nm)\<lparr>HostName := nm\<rparr>)) c nm compute \<and>
      getHostByName n c nm False compute allowTemplate = Some (Inl (NoSuchHost nm)))"
proof (intro conjI impI)
  assume "map_of (Hosts c) nm = Some host"
  then show "getHostByName n c nm safe compute allowTemplate = computeHost n (Some host) c nm compute"
    by (rule getHostByName_exact)
next
  assume a: "map_of (Hosts c) nm = None \<and> hostPatterns (Hosts c) = pre @ (pat, host) # post \<and>
    (\<forall>q\<in>set pre. pathMatch (fst q) nm = Inr False)"
  {
    assume "pathMatch pat nm = Inr True"
    with a show "getHostByName n c nm safe compute allowTemplate = computeHost n (Some host) c nm compute"
      by (intro getHostByName_host_match) auto
  }
  {
    assume e: "pathMatch pat nm = Inl err"
    then have "err = ErrBadPattern" by (rule pathMatch_error)
    moreover from a e have "getHostByName n c nm safe compute allowTemplate = Some (Inl ErrBadPattern)"
      by (intro getHostByName_host_error [where pre = pre and pat = pat and err = err]) auto
    ultimately show "getHostByName n c nm safe compute allowTemplate = Some (Inl err)" by simp
  }
next
  assume a: "map_of (Hosts c) nm = None \<and>
    (\<forall>q\<in>set (hostPatterns (Hosts c)). pathMatch (fst q) nm = Inr False) \<and>
    Templates c = tpre @ (tpat, template) # tpost \<and>
    (\<forall>q\<in>set tpre. pathMatch (fst q) nm = Inr False)"
  {
    assume "pathMatch tpat nm = Inr True"
    with a show "getHostByName n c nm safe compute True = computeHost n (Some template) c nm compute"
      by (intro getHostByName_template_match) auto
  }
  {
    assume e: "pathMatch tpat nm = Inl err"
    then have "err = ErrBadPattern" by (rule pathMatch_error)
    moreover from a e have "getHostByName n c nm safe compute True = Some (Inl ErrBadPattern)"
      by (intro getHostByName_template_error [where pre = tpre and pat = tpat and err = err]) auto
    ultimately show "getHostByName n c nm safe compute True = Some (Inl err)" by simp
  }
next
  assume a: "map_of (Hosts c) nm = None \<and>
    (\<forall>q\<in>set (hostPatterns (Hosts c)). pathMatch (fst q) nm = Inr False) \<and>
    (allowTemplate \<longrightarrow> (\<forall>q\<in>set (Templates c). pathMatch (fst q) nm = Inr False))"
  then have fb: "getHostByName n c nm s compute allowTemplate =
           (if s then computeHost n (Some ((NewHost nm)\<lparr>HostName := nm\<rparr>)) c nm compute
            else Some (Inl (NoSuchHost nm)))" for s
    by (intro getHostByName_fallback) auto
  show "getHostByName n c nm True compute allowTemplate =
        computeHost n (Some ((NewHost nm)\<lparr>HostName := nm\<rparr>)) c nm compute"
    using fb [of True] by simp
  show "getHostByName n c nm False compute allowTemplate = Some (Inl (NoSuchHost nm))"
    using fb [of False] by simp
qed

lemma siteConfig_simps:
  "Hosts siteConfig = [(''web*'', webHost), (''db'', namedHost ''db'')]"
  "Templates siteConfig = [(''tpl-*'', tplHost)]"
  "hostPatterns [(''web*'', webHost), (''db'', namedHost ''db'')] =
     [(''web*'', webHost), (''db'', namedHost ''db'')]"
  by (simp_all add: siteConfig_def config_New_def hostPatterns_def webHost_def namedHost_def NewHost_def)

text \<open>The five steps on a configuration with a pattern host, a plain host and a template.\<close>

theorem getHostByName_resolution_order_witness:
  "getHostByName 1 siteConfig ''db'' False False True =
     computeHost 1 (Some (namedHost ''db'')) siteConfig ''db'' False \<and>
   getHostByName 1 siteConfig ''web1'' False False True =
     computeHost 1 (Some webHost) siteConfig ''web1'' False \<and>
   getHostByName 1 siteConfig ''tpl-a'' False False True =
     computeHost 1 (Some tplHost) siteConfig ''tpl-a'' False \<and>
   getHostByName 1 siteConfig ''tpl-a'' False False False = Some (Inl (NoSuchHost ''tpl-a'')) \<and>
   getHostByName 1 siteConfig ''x'' True False True =
     computeHost 1 (Some ((NewHost ''x'')\<lparr>HostName := ''x''\<rparr>)) siteConfig ''x'' False \<and>
   getHostByName 1 siteConfig ''x'' False False True = Some (Inl (NoSuchHost ''x''))"
proof -
  note T = getHostByName_resolution_order
  have exact: "getHostByName 1 siteConfig ''db'' False False True =
     computeHost 1 (Some (namedHost ''db'')) siteConfig ''db'' False"
    using T [where c = siteConfig and nm = "''db''" and host = "namedHost ''db''" and n = 1
                and safe = False and compute = False and allowTemplate = True]
    by (simp add: siteConfig_simps)
  have glob: "getHostByName 1 siteConfig ''web1'' False False True =
     computeHost 1 (Some webHost) siteConfig ''web1'' False"
    using T [where c = siteConfig and nm = "''web1''" and host = webHost and n = 1
                and safe = False and compute = False and allowTemplate = True
                and pre = "[]" and pat = "''web*''" and post = "[(''db'', namedHost ''db'')]"]
    by (simp add: siteConfig_simps pathMatch_examples)
  have tpl: "getHostByName 1 siteConfig ''tpl-a'' False False True =
     computeHost 1 (Some tplHost) siteConfig ''tpl-a'' False"
    using T [where c = siteConfig and nm = "''tpl-a''" and n = 1
                and safe = False and compute = False and allowTemplate = True
                and tpre = "[]" and tpat = "''tpl-*''" and template = tplHost and tpost = "[]"]
    by (simp add: siteConfig_simps pathMatch_examples)
  have notpl: "getHostByName 1 siteConfig ''tpl-a'' False False False = Some (Inl (NoSuchHost ''tpl-a''))"
    using T [where c = siteConfig and nm = "''tpl-a''" and n = 1
                and compute = False and allowTemplate = False]
    by (simp add: siteConfig_simps pathMatch_examples)
  have virt: "getHostByName 1 siteConfig ''x'' True False True =
     computeHost 1 (Some ((NewHost ''x'')\<lparr>HostName := ''x''\<rparr>)) siteConfig ''x'' False"
    and nf: "getHostByName 1 siteConfig ''x'' False False True = Some (Inl (NoSuchHost ''x''))"
    using T [where c = siteConfig and nm = "''x''" and n = 1
                and compute = False and allowTemplate = True]
    by (simp_all add: siteConfig_simps pathMatch_examples)
  from exact glob tpl notpl virt nf show ?thesis by simp
qed

lemma badKeyConfig_simps:
  "Hosts badKeyConfig = [(''['', namedHost ''['')]"
  "Templates badKeyConfig = []"
  "hostPatterns [(''['', namedHost ''['')] = [(''['', namedHost ''['')]"
  by (simp_all add: badKeyConfig_def config_New_def hostPatterns_def namedHost_def NewHost_def)

text \<open>
  C3, as stated, fails: the only host key is malformed, the name \<open>x\<close> is no exact key,
  no pattern matches it and there is no template; yet with the virtual-host fallback
  the result is not the synthesized host, and without it the result is not the not-found
  error: both times it is the match error.
\<close>

theorem resolution_order_counterexample:
  "map_of (Hosts badKeyConfig) ''x'' = None \<and>
   list_all (\<lambda>q. pathMatch (fst q) ''x'' \<noteq> Inr True) (hostPatterns (Hosts badKeyConfig)) \<and>
   Templates badKeyConfig = [] \<and>
   getHostByName 1 badKeyConfig ''x'' True False True = Some (Inl ErrBadPattern) \<and>
   getHostByName 1 badKeyConfig ''x'' False False True = Some (Inl ErrBadPattern) \<and>
   computeHost 1 (Some ((NewHost ''x'')\<lparr>HostName := ''x''\<rparr>)) badKeyConfig ''x'' False
     \<noteq> Some (Inl ErrBadPattern) \<and>
   NoSuchHost ''x'' \<noteq> ErrBadPattern"
  by (simp add: badKeyConfig_simps pathMatch_examples getHostByName.simps NewHost_def)

lemma pathMatch_malformed: "scanPattern pat = None \<Longrightarrow> pathMatch pat nm = Inl ErrBadPattern"
  by (simp add: pathMatch_def)

lemma pathMatch_error_iff: "pathMatch pat nm = Inl err \<longleftrightarrow> err = ErrBadPattern \<and> scanPattern pat = None"
  by (auto simp: pathMatch_def split: option.splits)

lemma getHostByName_error_not_panic:
  "getHostByName n c nm safe compute allowTemplate = Some (Inl err) \<Longrightarrow> \<not> isPanic err"
  using getHostByName_errors [OF computeHost_no_error] by fastforce

lemma getHostByPath_error_not_panic:
  "getHostByPath n c nm safe compute allowTemplate = Some (Inl err) \<Longrightarrow> \<not> isPanic err"
  using getHostByPath_errors [OF computeHost_no_error] by fastforce

lemma getHostByPath_error:
  "getHostByName n c (fst (splitN2 nm)) safe compute allowTemplate = Some (Inl err) \<Longrightarrow>
   getHostByPath n c nm safe compute allowTemplate = Some (Inl err)"
  by (simp add: getHostByPath.simps)

lemma getHostByPath_computed:
  assumes "getHostByName n c (fst (splitN2 nm)) safe compute allowTemplate =
             computeHost n (Some host) c (fst (splitN2 nm)) compute"
  shows "(computeHost n (Some host) c (fst (splitN2 nm)) compute = Some (Inr h) \<longrightarrow>
            getHostByPath n c nm safe compute allowTemplate =
              Some (Inr (case snd (splitN2 nm) of None \<Rightarrow> h | Some gw \<Rightarrow> h\<lparr>Gateways := [gw]\<rparr>))) \<and>
         (\<forall>e. getHostByPath n c nm safe compute allowTemplate \<noteq> Some (Inl e))"
  using assms computeHost_no_error [of n host c "fst (splitN2 nm)" compute]
  by (auto simp: getHostByPath.simps split: option.splits sum.splits)

lemma scanPattern_open_bracket: "scanPattern ''['' = None"
  by (simp add: scanPattern.simps scanClass.simps)

lemma aliasConfig_simps:
  "Hosts aliasConfig = [(''web*'', aliasHost)]"
  "Aliases aliasHost = [''['']"
  by (simp_all add: aliasConfig_def config_New_def aliasHost_def namedHost_def NewHost_def)

lemma aliasConfig_patterns:
  "hostPatterns [(''web*'', aliasHost)] = [(''web*'', aliasHost), (''['', aliasHost)]"
  by (simp add: hostPatterns_def aliasConfig_simps)

text \<open>
  C10, as amended.  \<^verbatim>\<open>GetHostSafe\<close> and \<^verbatim>\<open>GetGatewaySafe\<close> panic with the error whenever
  the lookup under them returns one.  In particular, when the name looked up (for
  \<^verbatim>\<open>GetHostSafe\<close>, the part before the first slash) is no exact key and a pattern on
  which the matcher fails for that name is tried before any pattern that matches, they
  panic with the match error.  When a pattern that matches is tried first, the later
  patterns are not consulted: the lookup does not panic, and it returns the host computed
  from the host of that pattern whenever \<^verbatim>\<open>computeHost\<close> returns.
\<close>

theorem safe_lookups_panic:
  "(getHostByPath n c nm True True False = Some (Inl err) \<longrightarrow>
      GetHostSafe n c nm = Some (Inl (Panic err))) \<and>
   (getHostByName n c nm True True False = Some (Inl err) \<longrightarrow>
      GetGatewaySafe n c nm = Some (Inl (Panic err))) \<and>
   (map_of (Hosts c) (fst (splitN2 nm)) = None \<and>
    hostPatterns (Hosts c) = pre @ (pat, host) # post \<and>
    (\<forall>q\<in>set pre. pathMatch (fst q) (fst (splitN2 nm)) \<noteq> Inr True) \<and>
    pathMatch pat (fst (splitN2 nm)) = Inl err \<longrightarrow>
      GetHostSafe n c nm = Some (Inl (Panic err))) \<and>
   (map_of (Hosts c) nm = None \<and>
    hostPatterns (Hosts c) = pre @ (pat, host) # post \<and>
    (\<forall>q\<in>set pre. pathMatch (fst q) nm \<noteq> Inr True) \<and>
    pathMatch pat nm = Inl err \<longrightarrow>
      GetGatewaySafe n c nm = Some (Inl (Panic err))) \<and>
   (map_of (Hosts c) (fst (splitN2 nm)) = None \<and>
    hostPatterns (Hosts c) = pre @ (pat, host) # post \<and>
    (\<forall>q\<in>set pre. pathMatch (fst q) (fst (splitN2 nm)) = Inr False) \<and>
    pathMatch pat (fst (splitN2 nm)) = Inr True \<longrightarrow>
      (computeHost n (Some host) c (fst (splitN2 nm)) True = Some (Inr h) \<longrightarrow>
         GetHostSafe n c nm =
           Some (Inr (case snd (splitN2 nm) of None \<Rightarrow> h | Some gw \<Rightarrow> h\<lparr>Gateways := [gw]\<rparr>))) \<and>
      (\<forall>e. GetHostSafe n c nm \<noteq> Some (Inl e))) \<and>
   (map_of (Hosts c) nm = None \<and>
    hostPatterns (Hosts c) = pre @ (pat, host) # post \<and>
    (\<forall>q\<in>set pre. pathMatch (fst q) nm = Inr False) \<and>
    pathMatch pat nm = Inr True \<longrightarrow>
      GetGatewaySafe n c nm = computeHost n (Some host) c nm True)"
proof (intro conjI impI)
  assume e: "getHostByPath n c nm True True False = Some (Inl err)"
  then have "\<not> isPanic err" by (rule getHostByPath_error_not_panic)
  with e show "GetHostSafe n c nm = Some (Inl (Panic err))"
    by (simp add: GetHostSafe_def)
next
  assume e: "getHostByName n c nm True True False = Some (Inl err)"
  then have "\<not> isPanic err" by (rule getHostByName_error_not_panic)
  with e show "GetGatewaySafe n c nm = Some (Inl (Panic err))"
    by (simp add: GetGatewaySafe_def)
next
  assume a: "map_of (Hosts c) (fst (splitN2 nm)) = None \<and>
    hostPatterns (Hosts c) = pre @ (pat, host) # post \<and>
    (\<forall>q\<in>set pre. pathMatch (fst q) (fst (splitN2 nm)) \<noteq> Inr True) \<and>
    pathMatch pat (fst (splitN2 nm)) = Inl err"
  then have err: "err = ErrBadPattern" by (simp add: pathMatch_error_iff)
  from a have "getHostByName n c (fst (splitN2 nm)) True True False = Some (Inl ErrBadPattern)"
    by (intro getHostByName_host_error [where pre = pre and pat = pat and err = err]) auto
  then have "getHostByPath n c nm True True False = Some (Inl ErrBadPattern)"
    by (rule getHostByPath_error)
  then show "GetHostSafe n c nm = Some (Inl (Panic err))"
    by (simp add: GetHostSafe_def err)
next
  assume a: "map_of (Hosts c) nm = None \<and>
    hostPatterns (Hosts c) = pre @ (pat, host) # post \<and>
    (\<forall>q\<in>set pre. pathMatch (fst q) nm \<noteq> Inr True) \<and>
    pathMatch pat nm = Inl err"
  then have err: "err = ErrBadPattern" by (simp add: pathMatch_error_iff)
  from a have "getHostByName n c nm True True False = Some (Inl ErrBadPattern)"
    by (intro getHostByName_host_error [where pre = pre and pat = pat and err = err]) auto
  then show "GetGatewaySafe n c nm = Some (Inl (Panic err))"
    by (simp add: GetGatewaySafe_def err)
next
  assume a: "map_of (Hosts c) (fst (splitN2 nm)) = None \<and>
    hostPatterns (Hosts c) = pre @ (pat, host) # post \<and>
    (\<forall>q\<in>set pre. pathMatch (fst q) (fst (splitN2 nm)) = Inr False) \<and>
    pathMatch pat (fst (splitN2 nm)) = Inr True"
  then have g: "getHostByName n c (fst (splitN2 nm)) True True False =
      computeHost n (Some host) c (fst (splitN2 nm)) True"
    by (intro getHostByName_host_match [where pre = pre and pat = pat and post = post]) auto
  note p = getHostByPath_computed [OF g, of h]
  {
    assume "computeHost n (Some host) c (fst (splitN2 nm)) True = Some (Inr h)"
    with p show "GetHostSafe n c nm =
        Some (Inr (case snd (splitN2 nm) of None \<Rightarrow> h | Some gw \<Rightarrow> h\<lparr>Gateways := [gw]\<rparr>))"
      by (simp add: GetHostSafe_def)
  }
  from p show "\<forall>e. GetHostSafe n c nm \<noteq> Some (Inl e)"
    by (auto simp: GetHostSafe_def split: option.splits sum.splits)
next
  assume a: "map_of (Hosts c) nm = None \<and>
    hostPatterns (Hosts c) = pre @ (pat, host) # post \<and>
    (\<forall>q\<in>set pre. pathMatch (fst q) nm = Inr False) \<and>
    pathMatch pat nm = Inr True"
  then have g: "getHostByName n c nm True True False = computeHost n (Some host) c nm True"
    by (intro getHostByName_host_match [where pre = pre and pat = pat and post = post]) auto
  show "GetGatewaySafe n c nm = computeHost n (Some host) c nm True"
    using computeHost_no_error [of n host c nm True]
    by (auto simp: GetGatewaySafe_def g split: option.splits sum.splits)
qed

text \<open>The only host key is malformed and the matcher fails on it: both safe lookups of
  \<open>x\<close> panic.  The key \<^verbatim>\<open>web*\<close> matches \<open>web1\<close> before the malformed alias is tried:
  neither safe lookup panics.\<close>

theorem safe_lookups_panic_witness:
  "map_of (Hosts badKeyConfig) ''x'' = None \<and> pathMatch ''['' ''x'' = Inl ErrBadPattern \<and>
   GetHostSafe 1 badKeyConfig ''x'' = Some (Inl (Panic ErrBadPattern)) \<and>
   GetGatewaySafe 1 badKeyConfig ''x'' = Some (Inl (Panic ErrBadPattern)) \<and>
   map_of (Hosts aliasConfig) ''web1'' = None \<and> pathMatch ''web*'' ''web1'' = Inr True \<and>
   GetGatewaySafe 1 aliasConfig ''web1'' = computeHost 1 (Some aliasHost) aliasConfig ''web1'' True \<and>
   (\<forall>e. GetHostSafe 1 aliasConfig ''web1'' \<noteq> Some (Inl e))"
proof -
  have sp: "splitN2 ''x'' = (''x'', None)" "splitN2 ''web1'' = (''web1'', None)"
    by (simp_all add: splitN2_noslash)
  from safe_lookups_panic [where c = badKeyConfig and nm = "''x''" and n = 1 and pre = "[]"
      and pat = "''[''" and host = "namedHost ''[''" and post = "[]" and err = ErrBadPattern]
  have bad: "GetHostSafe 1 badKeyConfig ''x'' = Some (Inl (Panic ErrBadPattern))"
    "GetGatewaySafe 1 badKeyConfig ''x'' = Some (Inl (Panic ErrBadPattern))"
    by (simp_all add: badKeyConfig_simps pathMatch_examples sp)
  from safe_lookups_panic [where c = aliasConfig and nm = "''web1''" and n = 1 and pre = "[]"
      and pat = "''web*''" and host = aliasHost and post = "[(''['', aliasHost)]"]
  have good: "GetGatewaySafe 1 aliasConfig ''web1'' =
                computeHost 1 (Some aliasHost) aliasConfig ''web1'' True"
    "\<forall>e. GetHostSafe 1 aliasConfig ''web1'' \<noteq> Some (Inl e)"
    by (simp_all add: aliasConfig_simps aliasConfig_patterns pathMatch_examples sp)
  from bad good show ?thesis
    by (simp add: badKeyConfig_simps aliasConfig_simps pathMatch_examples)
qed

text \<open>
  C10, as stated, fails: a malformed pattern among the aliases, one on which the matcher
  fails for this very name, and a name that is no exact key do not suffice for a panic.  The key \<^verbatim>\<open>web*\<close> is tried before the
  malformed alias of the same host and matches \<open>web1\<close>, so both safe lookups return
  the computed host.
\<close>

theorem safe_lookup_malformed_alias_counterexample:
  "scanPattern ''['' = None \<and> pathMatch ''['' ''web1'' = Inl ErrBadPattern \<and>
   ''['' \<in> set (Aliases aliasHost) \<and>
   map_of (Hosts aliasConfig) ''web*'' = Some aliasHost \<and>
   map_of (Hosts aliasConfig) ''web1'' = None \<and>
   GetHostSafe 1 aliasConfig ''web1'' =
     Some (Inr (fullComputeTail aliasConfig ''web1''
                  (aliasHost\<lparr>name := ''web1'', inherited := {''web1''}\<rparr>))) \<and>
   GetGatewaySafe 1 aliasConfig ''web1'' =
     Some (Inr (fullComputeTail aliasConfig ''web1''
                  (aliasHost\<lparr>name := ''web1'', inherited := {''web1''}\<rparr>)))"
proof -
  have sp: "splitN2 ''web1'' = (''web1'', None)" by (simp add: splitN2_noslash)
  have inh: "Inherits aliasHost = []"
    by (simp add: aliasHost_def namedHost_def NewHost_def)
  have "getHostByName 1 aliasConfig ''web1'' True True False =
      Some (Inr (fullComputeTail aliasConfig ''web1''
                  (aliasHost\<lparr>name := ''web1'', inherited := {''web1''}\<rparr>)))"
    by (simp add: getHostByName.simps aliasConfig_simps pathMatch_examples inh)
  then show ?thesis
    by (simp add: GetHostSafe_def GetGatewaySafe_def getHostByPath.simps sp
        aliasConfig_simps scanPattern_open_bracket pathMatch_examples)
qed

lemma anyPatternMatches_iff:
  "anyPatternMatches pats part \<longleftrightarrow> (\<exists>pat\<in>set pats. pathMatch pat part = Inr True)"
  by (induction pats) (auto split: sum.splits)

lemma strings_Split_noslash: "sep \<notin> set s \<Longrightarrow> strings_Split s sep = [s]"
  by (induction s) auto

text \<open>
  C9, as amended.  The matcher fails on a pattern only when the pattern is malformed,
  whatever the name.  \<^verbatim>\<open>getHostByName\<close> hands the match error to its caller, for a host
  key, an alias and a template key alike, and \<^verbatim>\<open>getHostByPath\<close> hands on the error of
  \<^verbatim>\<open>getHostByName\<close>.  The staleness detector does not: in \<^verbatim>\<open>needsARebuildForTarget\<close> a
  pattern on which the matcher fails is skipped, as if it were not in the list.
\<close>

theorem match_errors_propagate_in_lookup_only:
  "(pathMatch pat nm = Inl err \<longrightarrow>
      err = ErrBadPattern \<and> scanPattern pat = None \<and> pathMatch pat nm' = Inl ErrBadPattern) \<and>
   (map_of (Hosts c) nm = None \<and> hostPatterns (Hosts c) = pre @ (pat, host) # post \<and>
    (\<forall>q\<in>set pre. pathMatch (fst q) nm = Inr False) \<and> pathMatch pat nm = Inl err \<longrightarrow>
      getHostByName n c nm safe compute allowTemplate = Some (Inl err)) \<and>
   (map_of (Hosts c) nm = None \<and>
    (\<forall>q\<in>set (hostPatterns (Hosts c)). pathMatch (fst q) nm = Inr False) \<and>
    Templates c = pre @ (pat, host) # post \<and>
    (\<forall>q\<in>set pre. pathMatch (fst q) nm = Inr False) \<and> pathMatch pat nm = Inl err \<longrightarrow>
      getHostByName n c nm safe compute True = Some (Inl err)) \<and>
   (getHostByName n c (fst (splitN2 path)) safe compute allowTemplate = Some (Inl err) \<longrightarrow>
      getHostByPath n c path safe compute allowTemplate = Some (Inl err)) \<and>
   (pathMatch pat part = Inl err \<longrightarrow>
      anyPatternMatches (ps @ pat # qs) part = anyPatternMatches (ps @ qs) part)"
proof (intro conjI impI)
  assume e: "pathMatch pat nm = Inl err"
  then show "err = ErrBadPattern" by (rule pathMatch_error)
  from e show "scanPattern pat = None" by (simp add: pathMatch_error_iff)
  then show "pathMatch pat nm' = Inl ErrBadPattern" by (rule pathMatch_malformed)
next
  assume a: "map_of (Hosts c) nm = None \<and> hostPatterns (Hosts c) = pre @ (pat, host) # post \<and>
    (\<forall>q\<in>set pre. pathMatch (fst q) nm = Inr False) \<and> pathMatch pat nm = Inl err"
  then have "err = ErrBadPattern" by (simp add: pathMatch_error_iff)
  moreover from a have "getHostByName n c nm safe compute allowTemplate = Some (Inl ErrBadPattern)"
    by (intro getHostByName_host_error [where pre = pre and pat = pat and err = err]) auto
  ultimately show "getHostByName n c nm safe compute allowTemplate = Some (Inl err)" by simp
next
  assume a: "map_of (Hosts c) nm = None \<and>
    (\<forall>q\<in>set (hostPatterns (Hosts c)). pathMatch (fst q) nm = Inr False) \<and>
    Templates c = pre @ (pat, host) # post \<and>
    (\<forall>q\<in>set pre. pathMatch (fst q) nm = Inr False) \<and> pathMatch pat nm = Inl err"
  then have "err = ErrBadPattern" by (simp add: pathMatch_error_iff)
  moreover from a have "getHostByName n c nm safe compute True = Some (Inl ErrBadPattern)"
    by (intro getHostByName_template_error [where pre = pre and pat = pat and err = err]) auto
  ultimately show "getHostByName n c nm safe compute True = Some (Inl err)" by simp
next
  assume "getHostByName n c (fst (splitN2 path)) safe compute allowTemplate = Some (Inl err)"
  then show "getHostByPath n c path safe compute allowTemplate = Some (Inl err)"
    by (rule getHostByPath_error)
next
  assume "pathMatch pat part = Inl err"
  then show "anyPatternMatches (ps @ pat # qs) part = anyPatternMatches (ps @ qs) part"
    by (auto simp: anyPatternMatches_iff)
qed

text \<open>The malformed key \<^verbatim>\<open>[\<close>: the lookup returns the match error, the pattern loop of
  the staleness detector passes over it.\<close>

theorem match_errors_propagate_in_lookup_only_witness:
  "pathMatch ''['' ''x'' = Inl ErrBadPattern \<and>
   getHostByName 1 badKeyConfig ''x'' True True False = Some (Inl ErrBadPattern) \<and>
   getHostByPath 1 badKeyConfig ''x'' True True False = Some (Inl ErrBadPattern) \<and>
   anyPatternMatches ([''db''] @ ''['' # [''web*'']) ''web1'' =
     anyPatternMatches ([''db''] @ [''web*'']) ''web1''"
proof -
  have sp: "splitN2 ''x'' = (''x'', None)" by (simp add: splitN2_noslash)
  from match_errors_propagate_in_lookup_only [where c = badKeyConfig and nm = "''x''" and n = 1
      and pre = "[]" and pat = "''[''" and host = "namedHost ''[''" and post = "[]"
      and err = ErrBadPattern and path = "''x''" and safe = True and compute = True
      and allowTemplate = False and part = "''web1''" and ps = "[''db'']" and qs = "[''web*'']"]
  show ?thesis
    by (simp add: badKeyConfig_simps pathMatch_examples sp)
qed

text \<open>
  C9, as stated, fails: the only pattern of the configuration is malformed and the
  matcher fails on it, yet the dynamic-target check answers \<open>False\<close> and
  \<^verbatim>\<open>IsConfigOutdated\<close> returns \<open>(False, nil)\<close>: the match error reaches no caller.
\<close>

theorem staleness_swallows_match_error_counterexample:
  "patternList badKeyConfig = [''[''] \<and> pathMatch ''['' ''x'' = Inl ErrBadPattern \<and>
   needsARebuildForTarget badKeyConfig ''x'' = False \<and>
   IsConfigOutdated 1 badKeyConfig sampleWorld ''x'' =
     Some (Inr ((False, None), badKeyConfig, sampleWorld))"
proof -
  have pl: "patternList badKeyConfig = [''['']" and al: "aliasList badKeyConfig = []"
    by (simp_all add: patternList_def aliasList_def badKeyConfig_simps namedHost_def NewHost_def)
  have nr: "needsARebuildForTarget badKeyConfig ''x'' = False"
    by (simp add: needsARebuildForTarget_def pl al badKeyConfig_simps pathMatch_examples)
  have "isSSHConfigOutdated badKeyConfig sampleWorld = (False, None)"
    by (simp add: isSSHConfigOutdated_def badKeyConfig_def config_New_def sampleWorld_def)
  with nr pl show ?thesis
    by (simp add: IsConfigOutdated_def pathMatch_examples)
qed

lemma ApplyDefaults_internal [simp]:
  "pattern (ApplyDefaults h d) = pattern h"
  "inherited (ApplyDefaults h d) = inherited h"
  "name (ApplyDefaults h d) = name h"
  "knownHosts (ApplyDefaults h d) = knownHosts h"
  by (simp_all add: ApplyDefaults_def)

lemma inheritLoop_pattern:
  "inheritLoop n c ps ch = Some (Inr h) \<Longrightarrow> pattern h = pattern ch"
proof (induction ps arbitrary: ch)
  case Nil
  then show ?case by simp
next
  case (Cons p ps)
  then show ?case
    by (fastforce split: if_splits option.splits sum.splits)
qed

lemma fullComputeTail_pattern: "pattern (fullComputeTail c nm h) = pattern h"
  by (simp add: fullComputeTail_def Let_def)

lemma computeHost_pattern:
  "computeHost n (Some h0) c nm full = Some (Inr h) \<Longrightarrow> pattern h = pattern h0"
proof (cases n)
  case 0
  then show "computeHost n (Some h0) c nm full = Some (Inr h) \<Longrightarrow> pattern h = pattern h0"
    by simp
next
  case (Suc m)
  assume "computeHost n (Some h0) c nm full = Some (Inr h)"
  with Suc obtain ch where l: "inheritLoop m c (Inherits h0) (h0\<lparr>name := nm, inherited := {nm}\<rparr>) = Some (Inr ch)"
    and h: "h = (if full then fullComputeTail c nm ch else ch)"
    by (auto split: option.splits sum.splits)
  from inheritLoop_pattern [OF l] h show "pattern h = pattern h0"
    by (simp add: fullComputeTail_pattern)
qed

lemma matchTemplates_Some: "matchTemplates ts nm = Inr (Some h) \<Longrightarrow> h \<in> snd ` set ts"
  by (induction ts) (auto split: sum.splits if_splits)

lemma matchTemplates_None:
  "matchTemplates ts nm = Inr None \<Longrightarrow> \<forall>q\<in>set ts. pathMatch (fst q) nm = Inr False"
proof (induction ts)
  case Nil
  show ?case by simp
next
  case (Cons t ts)
  obtain pat h where t: "t = (pat, h)" by (cases t)
  from Cons.prems t have "pathMatch pat nm = Inr False" and "matchTemplates ts nm = Inr None"
    by (auto split: sum.splits if_splits)
  with Cons.IH t show ?case by simp
qed

lemma hostPatterns_Cons:
  "hostPatterns ((k, h) # hs) = map (\<lambda>pat. (pat, h)) (k # Aliases h) @ hostPatterns hs"
  by (simp add: hostPatterns_def)

lemma hostPatterns_hosts: "snd ` set (hostPatterns hs) = snd ` set hs"
proof (induction hs)
  case Nil
  show ?case by (simp add: hostPatterns_def)
next
  case (Cons kh hs)
  obtain k h where kh: "kh = (k, h)" by (cases kh)
  have "snd ` set (map (\<lambda>pat. (pat, h)) (k # Aliases h)) = {h}"
    by force
  with Cons.IH show ?case
    by (simp only: kh hostPatterns_Cons set_append image_Un) simp
qed

lemma hostPatterns_patterns: "map fst (hostPatterns (Hosts c)) = patternList c"
proof -
  have "map fst (hostPatterns hs) = concat (map (\<lambda>(k, h). k # Aliases h) hs)" for hs
    by (induction hs) (auto simp: hostPatterns_def comp_def)
  then show ?thesis by (simp add: patternList_def)
qed

lemma lookup_of_dynamic_target:
  assumes "CHR ''/'' \<notin> set target" and "map_of (Hosts c) target = None"
    and "\<exists>pat\<in>set (patternList c). pathMatch pat target = Inr True"
    and "GetHostSafe n c target = Some (Inr host)"
  shows "\<exists>k h0. (k, h0) \<in> set (Hosts c) \<and> pattern host = pattern h0"
proof -
  from assms(4) have g: "getHostByName n c target True True False = Some (Inr host)"
    by (auto simp: GetHostSafe_def getHostByPath_noslash [OF assms(1)] split: option.splits sum.splits)
  have "matchHosts (Hosts c) target \<noteq> Inr None"
  proof
    assume "matchHosts (Hosts c) target = Inr None"
    then have "\<forall>q\<in>set (hostPatterns (Hosts c)). pathMatch (fst q) target = Inr False"
      by (simp add: matchHosts_flat matchTemplates_None)
    then have "\<forall>pat\<in>set (map fst (hostPatterns (Hosts c))). pathMatch pat target = Inr False"
      by simp
    with assms(3) show False by (simp only: hostPatterns_patterns) auto
  qed
  with g assms(2) obtain h0 where m: "matchHosts (Hosts c) target = Inr (Some h0)"
    and ch: "computeHost n (Some h0) c target True = Some (Inr host)"
    by (auto simp: getHostByName.simps split: sum.splits option.splits)
  from m have "h0 \<in> snd ` set (Hosts c)"
    using matchTemplates_Some [of "hostPatterns (Hosts c)" target h0]
    by (simp add: matchHosts_flat hostPatterns_hosts)
  then obtain k where "(k, h0) \<in> set (Hosts c)" by auto
  with computeHost_pattern [OF ch] show ?thesis by blast
qed

lemma map_of_setHost:
  "map_of (setHost hs k v) k' = (if k' = k \<and> map_of hs k \<noteq> None then Some v else map_of hs k')"
  by (induction hs) auto

lemma aliasList_setHost:
  "map_of hs k = Some inst \<Longrightarrow>
   target \<in> set (concat (map (\<lambda>(k, host). Aliases host @ knownHosts host)
                      (setHost hs k (AddKnownHost inst target))))"
proof (induction hs)
  case Nil
  then show ?case by simp
next
  case (Cons kh hs)
  obtain k' h where kh: "kh = (k', h)" by (cases kh)
  show ?case
  proof (cases "k' = k")
    case True
    then show ?thesis by (simp add: kh AddKnownHost_def)
  next
    case False
    with Cons.prems kh have "map_of hs k = Some inst" by simp
    from Cons.IH [OF this] False show ?thesis by (simp add: kh)
  qed
qed

lemma isSSHConfigOutdated_cong:
  "sshConfigPath c' = sshConfigPath c \<Longrightarrow> includedFiles c' = includedFiles c \<Longrightarrow>
   expandUser w' = expandUser w \<Longrightarrow> modTime w' = modTime w \<Longrightarrow>
   isSSHConfigOutdated c' w' = isSSHConfigOutdated c w"
proof -
  assume a: "sshConfigPath c' = sshConfigPath c" "includedFiles c' = includedFiles c"
    "expandUser w' = expandUser w" "modTime w' = modTime w"
  have "newerThan w' t fs = newerThan w t fs" for t fs
    using a(4) by (induction fs) (auto split: sum.splits)
  with a show ?thesis by (simp add: isSSHConfigOutdated_def split: sum.splits)
qed

text \<open>
  The first call of \<^verbatim>\<open>IsConfigOutdated\<close> on a literal target that is new to a pattern, and
  the call repeated on the state the first one leaves.
\<close>

lemma dynamic_target_recorded:
  assumes "CHR ''/'' \<notin> set target"
    and "map_of (Hosts c) target = None"
    and "target \<notin> set (aliasList c)"
    and "\<exists>pat\<in>set (patternList c). pathMatch pat target = Inr True"
    and "\<forall>(k, h)\<in>set (Hosts c). pattern h = k"
    and "GetHostSafe n c target = Some (Inr host)"
  shows "\<exists>c' w' inst.
     IsConfigOutdated n c w target = Some (Inr ((True, None), c', w')) \<and>
     map_of (Hosts c) (pattern host) = Some inst \<and>
     map_of (Hosts c') (pattern host) = Some (AddKnownHost inst target) \<and>
     target \<in> set (aliasList c') \<and>
     (\<forall>ls. fileLines w (knownHostPath c w) = Some ls \<longrightarrow>
           fileLines w' (knownHostPath c w) = Some (ls @ [target])) \<and>
     (fileLines w (knownHostPath c w) = None \<longrightarrow> w' = w) \<and>
     IsConfigOutdated n c' w' target = Some (Inr (isSSHConfigOutdated c w, c', w')) \<and>
     (isSSHConfigOutdated c w = (False, None) \<longrightarrow>
        IsConfigOutdated n c' w' target = Some (Inr ((False, None), c', w')))"
proof -
  have parts: "strings_Split target (CHR ''/'') = [target]"
    using assms(1) by (rule strings_Split_noslash)
  have need: "needsARebuildForTarget c target"
    using assms(2,3,4) by (simp add: needsARebuildForTarget_def parts anyPatternMatches_iff)
  from lookup_of_dynamic_target [OF assms(1,2,4,6)]
  obtain k h0 where kh: "(k, h0) \<in> set (Hosts c)" and p: "pattern host = pattern h0"
    by blast
  from kh assms(5) have pk: "pattern host = k" using p by auto
  from kh have "map_of (Hosts c) k \<noteq> None"
    by (metis map_of_eq_None_iff image_eqI fst_conv)
  then obtain inst where inst: "map_of (Hosts c) (pattern host) = Some inst"
    using pk by auto
  define c' where "c' = c\<lparr>Hosts := setHost (Hosts c) (pattern host) (AddKnownHost inst target)\<rparr>"
  define w' where "w' =
    (case fileLines w (knownHostPath c w) of
       None \<Rightarrow> w
     | Some ls \<Rightarrow> w\<lparr>fileLines := (fileLines w)(knownHostPath c w := Some (ls @ [target]))\<rparr>)"
  have add: "addKnownHost n c target = Some (Inr c')"
    using assms(6) inst by (simp add: addKnownHost_def c'_def)
  have kp: "knownHostPath c' w = knownHostPath c w"
    by (simp add: knownHostPath_def c'_def)
  have save: "SaveNewKnownHost n c w target = Some (Inr (c', w'))"
    using add kp
    by (simp add: SaveNewKnownHost_def w'_def knownHostPath_def c'_def split: option.splits)
  have first: "IsConfigOutdated n c w target = Some (Inr ((True, None), c', w'))"
    using need save by (simp add: IsConfigOutdated_def)
  have mem: "map_of (Hosts c') (pattern host) = Some (AddKnownHost inst target)"
    using inst by (simp add: c'_def map_of_setHost)
  have al: "target \<in> set (aliasList c')"
    using aliasList_setHost [OF inst] by (simp add: aliasList_def c'_def)
  have nokey: "map_of (Hosts c') target = None"
    using assms(2) inst by (auto simp: c'_def map_of_setHost)
  have need': "\<not> needsARebuildForTarget c' target"
    using al nokey by (simp add: needsARebuildForTarget_def parts)
  have fresh: "isSSHConfigOutdated c' w' = isSSHConfigOutdated c w"
    by (rule isSSHConfigOutdated_cong) (simp_all add: c'_def w'_def split: option.splits)
  have second: "IsConfigOutdated n c' w' target = Some (Inr (isSSHConfigOutdated c w, c', w'))"
    using need' fresh by (simp add: IsConfigOutdated_def)
  have f1: "\<forall>ls. fileLines w (knownHostPath c w) = Some ls \<longrightarrow>
           fileLines w' (knownHostPath c w) = Some (ls @ [target])"
    by (simp add: w'_def)
  have f2: "fileLines w (knownHostPath c w) = None \<longrightarrow> w' = w"
    by (simp add: w'_def)
  from first inst mem al f1 f2 second show ?thesis by auto
qed

text \<open>
  C4, as amended.  The target has no slash, is no exact host key, no alias and no known
  host, and matches some host key or alias; every host carries its key as its pattern (as
  \<^verbatim>\<open>applyMissingNames\<close> leaves it); and the lookup \<^verbatim>\<open>GetHostSafe(target)\<close> returns a
  host.  Then the first call reports stale with no error; the target is appended to the
  known hosts of the host registered under the pattern of the host looked up; it is
  appended to the cache file when that file can be opened, and otherwise the file system
  is left as it was; and the call repeated on the resulting state reports what the
  source-freshness trigger reports on the unchanged modification times, hence not-stale
  when no loaded source is newer than the output.
\<close>

theorem known_host_gating:
  assumes "CHR ''/'' \<notin> set target"
    and "map_of (Hosts c) target = None"
    and "target \<notin> set (aliasList c)"
    and "\<exists>pat\<in>set (patternList c). pathMatch pat target = Inr True"
    and "\<forall>(k, h)\<in>set (Hosts c). pattern h = k"
    and "GetHostSafe n c target = Some (Inr host)"
  shows "\<exists>c' w' inst.
     IsConfigOutdated n c w target = Some (Inr ((True, None), c', w')) \<and>
     map_of (Hosts c) (pattern host) = Some inst \<and>
     map_of (Hosts c') (pattern host) = Some (AddKnownHost inst target) \<and>
     target \<in> set (aliasList c') \<and>
     (\<forall>ls. fileLines w (knownHostPath c w) = Some ls \<longrightarrow>
           fileLines w' (knownHostPath c w) = Some (ls @ [target])) \<and>
     (fileLines w (knownHostPath c w) = None \<longrightarrow> w' = w) \<and>
     IsConfigOutdated n c' w' target = Some (Inr (isSSHConfigOutdated c w, c', w')) \<and>
     (isSSHConfigOutdated c w = (False, None) \<longrightarrow>
        IsConfigOutdated n c' w' target = Some (Inr ((False, None), c', w')))"
  using assms by (rule dynamic_target_recorded)

lemma loadedConfig_simps:
  "Hosts loadedConfig = [(''web*'', webHost), (''db'', namedHost ''db'')]"
  "ASSHKnownHostFile loadedConfig = ''~/.ssh/assh_known_hosts''"
  "sshConfigPath loadedConfig = ''~/.ssh/config''"
  "includedFiles loadedConfig = [(''~/.ssh/assh.yml'', True)]"
  by (simp_all add: loadedConfig_def siteConfig_def config_New_def)

lemma webHost_simps:
  "Aliases webHost = []" "knownHosts webHost = []" "Inherits webHost = []" "pattern webHost = ''web*''"
  "Aliases (namedHost k) = []" "knownHosts (namedHost k) = []" "Inherits (namedHost k) = []"
  "pattern (namedHost k) = k"
  by (simp_all add: webHost_def namedHost_def NewHost_def)

lemma loadedConfig_lists:
  "aliasList loadedConfig = []" "patternList loadedConfig = [''web*'', ''db'']"
  by (simp_all add: aliasList_def patternList_def loadedConfig_simps webHost_simps)

lemma loadedConfig_lookup:
  "GetHostSafe 1 loadedConfig ''web1'' =
     Some (Inr (fullComputeTail loadedConfig ''web1''
                  (webHost\<lparr>name := ''web1'', inherited := {''web1''}\<rparr>)))"
  by (simp add: GetHostSafe_def getHostByPath_noslash getHostByName.simps loadedConfig_simps
      webHost_simps pathMatch_examples)

lemma loadedConfig_gating:
  "\<exists>c' w'.
     IsConfigOutdated 1 loadedConfig w ''web1'' = Some (Inr ((True, None), c', w')) \<and>
     map_of (Hosts c') ''web*'' = Some (AddKnownHost webHost ''web1'') \<and>
     (\<forall>ls. fileLines w (knownHostPath loadedConfig w) = Some ls \<longrightarrow>
           fileLines w' (knownHostPath loadedConfig w) = Some (ls @ [''web1''])) \<and>
     (fileLines w (knownHostPath loadedConfig w) = None \<longrightarrow> w' = w) \<and>
     IsConfigOutdated 1 c' w' ''web1'' = Some (Inr (isSSHConfigOutdated loadedConfig w, c', w'))"
proof -
  have "\<exists>c' w' inst.
     IsConfigOutdated 1 loadedConfig w ''web1'' = Some (Inr ((True, None), c', w')) \<and>
     map_of (Hosts loadedConfig) ''web*'' = Some inst \<and>
     map_of (Hosts c') ''web*'' = Some (AddKnownHost inst ''web1'') \<and>
     ''web1'' \<in> set (aliasList c') \<and>
     (\<forall>ls. fileLines w (knownHostPath loadedConfig w) = Some ls \<longrightarrow>
           fileLines w' (knownHostPath loadedConfig w) = Some (ls @ [''web1''])) \<and>
     (fileLines w (knownHostPath loadedConfig w) = None \<longrightarrow> w' = w) \<and>
     IsConfigOutdated 1 c' w' ''web1'' = Some (Inr (isSSHConfigOutdated loadedConfig w, c', w')) \<and>
     (isSSHConfigOutdated loadedConfig w = (False, None) \<longrightarrow>
        IsConfigOutdated 1 c' w' ''web1'' = Some (Inr ((False, None), c', w')))"
    using dynamic_target_recorded [where target = "''web1''" and c = loadedConfig and n = 1 and w = w,
        OF _ _ _ _ _ loadedConfig_lookup]
    by (simp add: loadedConfig_simps loadedConfig_lists webHost_simps pathMatch_examples
        fullComputeTail_pattern)
  then show ?thesis by (auto simp: loadedConfig_simps)
qed

text \<open>The target \<open>web1\<close> of the pattern host \<^verbatim>\<open>web*\<close>, with an output newer than the source.\<close>

theorem known_host_gating_witness:
  "\<exists>c' w'.
     IsConfigOutdated 1 loadedConfig sampleWorld ''web1'' = Some (Inr ((True, None), c', w')) \<and>
     map_option knownHosts (map_of (Hosts c') ''web*'') = Some [''web1''] \<and>
     fileLines w' ''~/.ssh/assh_known_hosts'' = Some [''web1''] \<and>
     IsConfigOutdated 1 c' w' ''web1'' = Some (Inr ((False, None), c', w'))"
proof -
  have fresh: "isSSHConfigOutdated loadedConfig sampleWorld = (False, None)"
    by (simp add: isSSHConfigOutdated_def loadedConfig_simps sampleWorld_def)
  have kp: "knownHostPath loadedConfig sampleWorld = ''~/.ssh/assh_known_hosts''"
    by (simp add: knownHostPath_def loadedConfig_simps sampleWorld_def)
  have fl: "fileLines sampleWorld ''~/.ssh/assh_known_hosts'' = Some []"
    by (simp add: sampleWorld_def)
  from known_host_gating [where target = "''web1''" and c = loadedConfig and n = 1
        and w = sampleWorld, OF _ _ _ _ _ loadedConfig_lookup]
  obtain c' w' inst where
    "IsConfigOutdated 1 loadedConfig sampleWorld ''web1'' = Some (Inr ((True, None), c', w'))"
    "map_of (Hosts loadedConfig) ''web*'' = Some inst"
    "map_of (Hosts c') ''web*'' = Some (AddKnownHost inst ''web1'')"
    "fileLines w' ''~/.ssh/assh_known_hosts'' = Some [''web1'']"
    "IsConfigOutdated 1 c' w' ''web1'' = Some (Inr ((False, None), c', w'))"
    by (auto simp: loadedConfig_simps loadedConfig_lists webHost_simps pathMatch_examples
        fullComputeTail_pattern fresh kp fl)
  moreover from this(2) have "inst = webHost" by (simp add: loadedConfig_simps)
  ultimately show ?thesis
    by (intro exI [of _ c'] exI [of _ w']) (simp add: AddKnownHost_def webHost_simps)
qed

text \<open>
  C4, as stated, fails in three ways, each time for a target that matches \<^verbatim>\<open>web*\<close> and is
  no key, alias or known host.  When the map yields a malformed key before the matching
  pattern, the first call panics in \<^verbatim>\<open>GetHostSafe\<close> instead of reporting stale.  When
  the cache file cannot be opened, the first call reports stale and writes nothing.  When
  a source is newer than the output, the repeated call reports stale.
\<close>

theorem known_host_gating_counterexample:
  "map_of (Hosts orderConfig) ''web1'' = None \<and> ''web1'' \<notin> set (aliasList orderConfig) \<and>
   ''web*'' \<in> set (patternList orderConfig) \<and> pathMatch ''web*'' ''web1'' = Inr True \<and>
   IsConfigOutdated 1 orderConfig sampleWorld ''web1'' = Some (Inl (Panic ErrBadPattern)) \<and>
   map_of (Hosts loadedConfig) ''web1'' = None \<and> ''web1'' \<notin> set (aliasList loadedConfig) \<and>
   ''web*'' \<in> set (patternList loadedConfig) \<and>
   (\<exists>c'. IsConfigOutdated 1 loadedConfig readonlyWorld ''web1'' =
           Some (Inr ((True, None), c', readonlyWorld))) \<and>
   (\<exists>c' w'. IsConfigOutdated 1 loadedConfig staleWorld ''web1'' =
              Some (Inr ((True, None), c', w')) \<and>
            IsConfigOutdated 1 c' w' ''web1'' = Some (Inr ((True, None), c', w')))"
proof -
  have oc: "Hosts orderConfig = [(''['', namedHost ''[''), (''web*'', webHost)]"
    by (simp add: orderConfig_def config_New_def)
  have ol: "aliasList orderConfig = []" "patternList orderConfig = [''['', ''web*'']"
    by (simp_all add: aliasList_def patternList_def oc webHost_simps)
  have need: "needsARebuildForTarget orderConfig ''web1''"
    by (simp add: needsARebuildForTarget_def ol oc pathMatch_examples)
  have "GetHostSafe 1 orderConfig ''web1'' = Some (Inl (Panic ErrBadPattern))"
    by (simp add: GetHostSafe_def getHostByPath_noslash getHostByName.simps oc pathMatch_examples)
  with need have panic: "IsConfigOutdated 1 orderConfig sampleWorld ''web1'' = Some (Inl (Panic ErrBadPattern))"
    by (simp add: IsConfigOutdated_def SaveNewKnownHost_def addKnownHost_def)
  have ro: "fileLines readonlyWorld (knownHostPath loadedConfig readonlyWorld) = None"
    by (simp add: readonlyWorld_def)
  from loadedConfig_gating [of readonlyWorld] ro
  have a: "\<exists>c'. IsConfigOutdated 1 loadedConfig readonlyWorld ''web1'' =
           Some (Inr ((True, None), c', readonlyWorld))"
    by auto
  have st: "isSSHConfigOutdated loadedConfig staleWorld = (True, None)"
    by (simp add: isSSHConfigOutdated_def loadedConfig_simps staleWorld_def sampleWorld_def)
  from loadedConfig_gating [of staleWorld] st
  have c: "\<exists>c' w'. IsConfigOutdated 1 loadedConfig staleWorld ''web1'' =
              Some (Inr ((True, None), c', w')) \<and>
            IsConfigOutdated 1 c' w' ''web1'' = Some (Inr ((True, None), c', w'))"
    by auto
  from panic a c show ?thesis
    by (simp add: oc ol loadedConfig_simps loadedConfig_lists pathMatch_examples)
qed

section \<open>Properties of the serializer\<close>

lemma writeHosts_blocks:
  assumes "\<forall>nm\<in>set names. map_of (Hosts c) nm \<noteq> None"
    and "\<forall>nm\<in>set names. computeHost n (map_of (Hosts c) nm) c nm False \<noteq> None"
  shows "writeHosts n wr c names = Some (Inr (concat (map (hostBlock n wr c) names)))"
  using assms
proof (induction names)
  case Nil
  show ?case by simp
next
  case (Cons nm names)
  from Cons.prems obtain h where h: "map_of (Hosts c) nm = Some h" by auto
  with Cons.prems obtain r where r: "computeHost n (Some h) c nm False = Some r" by auto
  with computeHost_no_error [of n h c nm False] obtain ch where "r = Inr ch"
    by (cases r) auto
  with r h Cons show ?case by (simp add: hostBlock_def)
qed

text \<open>Without \<^verbatim>\<open>fullCompute\<close> the result does not depend on the global defaults.\<close>

lemma computeHost_Defaults:
  "computeHost n raw (c\<lparr>Defaults := d\<rparr>) nm False = computeHost n raw c nm False"
proof (induction n arbitrary: raw nm)
  case 0
  show ?case by simp
next
  case (Suc n)
  have nm: "getHostByName n (c\<lparr>Defaults := d\<rparr>) p s False a = getHostByName n c p s False a" for p s a
    by (simp add: getHostByName.simps Suc cong: option.case_cong sum.case_cong if_cong)
  have pth: "getHostByPath n (c\<lparr>Defaults := d\<rparr>) p s False a = getHostByPath n c p s False a" for p s a
    by (simp add: getHostByPath.simps nm cong: option.case_cong sum.case_cong)
  have loop: "inheritLoop n (c\<lparr>Defaults := d\<rparr>) ps ch = inheritLoop n c ps ch" for ps ch
    by (induction ps arbitrary: ch) (simp_all add: pth cong: option.case_cong sum.case_cong if_cong)
  show ?case by (cases raw) (simp_all add: loop cong: option.case_cong sum.case_cong)
qed

lemma writeSSHConfigTo_sorted:
  assumes "\<forall>nm\<in>set (map fst (Hosts c)). computeHost n (map_of (Hosts c) nm) c nm False \<noteq> None"
  shows "WriteSSHConfigTo n ver now wr c =
       Some (Inr (strings_Replace (strings_Replace headerTemplate ''%VERSION'' ver)
                    ''%BUILD_DATE'' now @ [CHR 0x0A] @ [CHR 0x0A] @
                  ''# host-based configuration'' @ [CHR 0x0A] @
                  concat (map (hostBlock n wr c) (sortedNames c)) @
                  ''# global configuration'' @ [CHR 0x0A] @
                  wr ((Defaults c)\<lparr>name := ''*''\<rparr>),
                  c\<lparr>Defaults := (Defaults c)\<lparr>name := ''*''\<rparr>\<rparr>))"
proof -
  have s: "set (sortedNames c) = set (map fst (Hosts c))"
    by (simp add: sortedNames_def)
  have keys: "\<forall>nm\<in>set (sortedNames c). map_of (Hosts c) nm \<noteq> None"
    unfolding s by (simp add: map_of_eq_None_iff)
  have ret: "\<forall>nm\<in>set (sortedNames c). computeHost n (map_of (Hosts c) nm) c nm False \<noteq> None"
    unfolding s using assms .
  have "writeHosts n wr c (sortedNames c) =
             Some (Inr (concat (map (hostBlock n wr c) (sortedNames c))))"
    using keys ret by (rule writeHosts_blocks)
  then show ?thesis by (simp add: WriteSSHConfigTo_def)
qed

text \<open>
  The layout of the output.  When the resolution of every host returns,
  \<^verbatim>\<open>WriteSSHConfigTo\<close> returns, and it
  writes the header, the line \<^verbatim>\<open># host-based configuration\<close>, then one block per key of
  \<^verbatim>\<open>Hosts\<close>, the keys taken in sorted (bytewise lexicographic) order whatever the order of
  the map, each block that of the host computed with \<^verbatim>\<open>fullCompute = false\<close> and so the
  same whatever the global defaults are, then the line \<^verbatim>\<open># global configuration\<close> and
  the one block of \<^verbatim>\<open>Defaults\<close> under the name \<^verbatim>\<open>*\<close>.
\<close>

theorem serializer_layout:
  assumes "\<forall>nm\<in>set (map fst (Hosts c)). computeHost n (map_of (Hosts c) nm) c nm False \<noteq> None"
  shows "\<exists>names.
     sorted names \<and> mset names = mset (map fst (Hosts c)) \<and>
     WriteSSHConfigTo n ver now wr c =
       Some (Inr (strings_Replace (strings_Replace headerTemplate ''%VERSION'' ver)
                    ''%BUILD_DATE'' now @ [CHR 0x0A] @ [CHR 0x0A] @
                  ''# host-based configuration'' @ [CHR 0x0A] @
                  concat (map (hostBlock n wr c) names) @
                  ''# global configuration'' @ [CHR 0x0A] @
                  wr ((Defaults c)\<lparr>name := ''*''\<rparr>),
                  c\<lparr>Defaults := (Defaults c)\<lparr>name := ''*''\<rparr>\<rparr>)) \<and>
     (\<forall>nm d. hostBlock n wr (c\<lparr>Defaults := d\<rparr>) nm = hostBlock n wr c nm)"
proof -
  have d: "hostBlock n wr (c\<lparr>Defaults := d\<rparr>) nm = hostBlock n wr c nm" for nm d
    by (simp add: hostBlock_def computeHost_Defaults)
  have "sorted (sortedNames c)" and "mset (sortedNames c) = mset (map fst (Hosts c))"
    by (simp_all add: sortedNames_def)
  with writeSSHConfigTo_sorted [OF assms, of ver now wr] d show ?thesis
    by (intro exI [of _ "sortedNames c"]) simp
qed

lemma sortedNames_siteConfig: "sortedNames siteConfig = [''db'', ''web*'']"
  by (simp add: sortedNames_def siteConfig_simps)

lemma hostBlock_siteConfig:
  "hostBlock (Suc 0) sampleBlock siteConfig ''db'' = ''Host db'' @ [CHR 0x0A, CHR 0x0A]"
  "hostBlock (Suc 0) sampleBlock siteConfig ''web*'' =
     ''Host web*'' @ [CHR 0x0A] @ ''  # HostName: srv'' @ [CHR 0x0A, CHR 0x0A]"
  by (simp_all add: hostBlock_def siteConfig_simps sampleBlock_def webHost_def namedHost_def
      NewHost_def)

text \<open>The sample configuration: its keys \<^verbatim>\<open>web*\<close> and \<^verbatim>\<open>db\<close> are written as
  \<^verbatim>\<open>db\<close>, then \<^verbatim>\<open>web*\<close>.\<close>

theorem serializer_layout_witness:
  "computeHost 1 (map_of (Hosts siteConfig) ''web*'') siteConfig ''web*'' False \<noteq> None \<and>
   computeHost 1 (map_of (Hosts siteConfig) ''db'') siteConfig ''db'' False \<noteq> None \<and>
   WriteSSHConfigTo 1 ''2.6.0'' ''2016-11-01 12:00:00 +0000 UTC'' sampleBlock siteConfig =
     Some (Inr (strings_Replace (strings_Replace headerTemplate ''%VERSION'' ''2.6.0'')
                    ''%BUILD_DATE'' ''2016-11-01 12:00:00 +0000 UTC'' @ [CHR 0x0A] @ [CHR 0x0A] @
                ''# host-based configuration'' @ [CHR 0x0A] @
                ''Host db'' @ [CHR 0x0A, CHR 0x0A] @
                ''Host web*'' @ [CHR 0x0A] @ ''  # HostName: srv'' @ [CHR 0x0A, CHR 0x0A] @
                ''# global configuration'' @ [CHR 0x0A] @
                ''Host *'' @ [CHR 0x0A],
                siteConfig\<lparr>Defaults := (Defaults siteConfig)\<lparr>name := ''*''\<rparr>\<rparr>))"
proof -
  have r: "computeHost 1 (map_of (Hosts siteConfig) ''web*'') siteConfig ''web*'' False \<noteq> None"
    "computeHost 1 (map_of (Hosts siteConfig) ''db'') siteConfig ''db'' False \<noteq> None"
    by (simp_all add: siteConfig_simps webHost_simps)
  then have h: "\<forall>nm\<in>set (map fst (Hosts siteConfig)).
      computeHost 1 (map_of (Hosts siteConfig) nm) siteConfig nm False \<noteq> None"
    by (simp add: siteConfig_simps)
  from serializer_layout [OF h, of "''2.6.0''" "''2016-11-01 12:00:00 +0000 UTC''" sampleBlock]
  obtain names where n: "sorted names" "mset names = mset (map fst (Hosts siteConfig))"
    and w: "WriteSSHConfigTo 1 ''2.6.0'' ''2016-11-01 12:00:00 +0000 UTC'' sampleBlock siteConfig =
       Some (Inr (strings_Replace (strings_Replace headerTemplate ''%VERSION'' ''2.6.0'')
                    ''%BUILD_DATE'' ''2016-11-01 12:00:00 +0000 UTC'' @ [CHR 0x0A] @ [CHR 0x0A] @
                  ''# host-based configuration'' @ [CHR 0x0A] @
                  concat (map (hostBlock 1 sampleBlock siteConfig) names) @
                  ''# global configuration'' @ [CHR 0x0A] @
                  sampleBlock ((Defaults siteConfig)\<lparr>name := ''*''\<rparr>),
                  siteConfig\<lparr>Defaults := (Defaults siteConfig)\<lparr>name := ''*''\<rparr>\<rparr>))"
    by blast
  from n have "sort (map fst (Hosts siteConfig)) = names"
    by (intro properties_for_sort) simp_all
  then have names: "names = [''db'', ''web*'']"
    using sortedNames_siteConfig by (simp add: sortedNames_def)
  have g: "sampleBlock ((Defaults siteConfig)\<lparr>name := ''*''\<rparr>) = ''Host *'' @ [CHR 0x0A]"
    by (simp add: sampleBlock_def siteConfig_def config_New_def NewHost_def)
  from r w show ?thesis
    by (simp add: names hostBlock_siteConfig g)
qed

lemma overlap_lookup:
  "map_of (Hosts overlapConfig) ''ab'' = None" "map_of (Hosts overlapConfig') ''ab'' = None"
  "matchHosts (Hosts overlapConfig) ''ab'' = Inr (Some starA)"
  "matchHosts (Hosts overlapConfig') ''ab'' = Inr (Some starB)"
  by (simp_all add: overlapConfig_def overlapConfig'_def config_New_def starA_def starB_def
      namedHost_def NewHost_def pathMatch_def scanPattern.simps)

lemma overlap_x:
  "hostBlock (Suc (Suc 0)) sampleBlock overlapConfig ''x'' =
     ''Host x'' @ [CHR 0x0A] @ ''  User alice'' @ [CHR 0x0A, CHR 0x0A]"
  "hostBlock (Suc (Suc 0)) sampleBlock overlapConfig' ''x'' =
     ''Host x'' @ [CHR 0x0A] @ ''  User bob'' @ [CHR 0x0A, CHR 0x0A]"
proof -
  have x: "map_of (Hosts overlapConfig) ''x'' = Some hostX"
    "map_of (Hosts overlapConfig') ''x'' = Some hostX"
    by (simp_all add: overlapConfig_def overlapConfig'_def config_New_def)
  have i: "Inherits starA = []" "Inherits starB = []" "Inherits hostX = [''ab'']"
    by (simp_all add: starA_def starB_def hostX_def namedHost_def NewHost_def)
  have p: "getHostByPath (Suc 0) overlapConfig ''ab'' False False True =
             Some (Inr (starA\<lparr>name := ''ab'', inherited := {''ab''}\<rparr>))"
    "getHostByPath (Suc 0) overlapConfig' ''ab'' False False True =
             Some (Inr (starB\<lparr>name := ''ab'', inherited := {''ab''}\<rparr>))"
    by (simp_all add: getHostByPath_noslash getHostByName.simps overlap_lookup i)
  have c: "computeHost (Suc (Suc 0)) (Some hostX) overlapConfig ''x'' False =
      Some (Inr (ApplyDefaults (hostX\<lparr>name := ''x'', inherited := {''ab'', ''x''}\<rparr>)
                   (starA\<lparr>name := ''ab'', inherited := {''ab''}\<rparr>)))"
    "computeHost (Suc (Suc 0)) (Some hostX) overlapConfig' ''x'' False =
      Some (Inr (ApplyDefaults (hostX\<lparr>name := ''x'', inherited := {''ab'', ''x''}\<rparr>)
                   (starB\<lparr>name := ''ab'', inherited := {''ab''}\<rparr>)))"
    by (simp_all add: i p)
  show "hostBlock (Suc (Suc 0)) sampleBlock overlapConfig ''x'' =
     ''Host x'' @ [CHR 0x0A] @ ''  User alice'' @ [CHR 0x0A, CHR 0x0A]"
    unfolding hostBlock_def x c
    by (simp add: hostX_def namedHost_def NewHost_def ApplyDefaults_def sampleBlock_def starA_def)
  show "hostBlock (Suc (Suc 0)) sampleBlock overlapConfig' ''x'' =
     ''Host x'' @ [CHR 0x0A] @ ''  User bob'' @ [CHR 0x0A, CHR 0x0A]"
    unfolding hostBlock_def x c
    by (simp add: hostX_def namedHost_def NewHost_def ApplyDefaults_def sampleBlock_def starB_def)
qed

lemma overlap_simps:
  "Hosts overlapConfig = [(''a*'', starA), (''*b'', starB), (''x'', hostX)]"
  "Hosts overlapConfig' = [(''*b'', starB), (''a*'', starA), (''x'', hostX)]"
  "overlapConfig' = overlapConfig\<lparr>Hosts := [(''*b'', starB), (''a*'', starA), (''x'', hostX)]\<rparr>"
  by (simp_all add: overlapConfig_def overlapConfig'_def)

lemma overlap_sorted:
  "sortedNames overlapConfig = [''*b'', ''a*'', ''x'']"
  "sortedNames overlapConfig' = [''*b'', ''a*'', ''x'']"
  by (simp_all add: sortedNames_def overlap_simps)

lemma overlap_stars:
  "hostBlock (Suc (Suc 0)) sampleBlock overlapConfig ''a*'' =
     ''Host a*'' @ [CHR 0x0A] @ ''  User alice'' @ [CHR 0x0A, CHR 0x0A]"
  "hostBlock (Suc (Suc 0)) sampleBlock overlapConfig' ''a*'' =
     ''Host a*'' @ [CHR 0x0A] @ ''  User alice'' @ [CHR 0x0A, CHR 0x0A]"
  "hostBlock (Suc (Suc 0)) sampleBlock overlapConfig ''*b'' =
     ''Host *b'' @ [CHR 0x0A] @ ''  User bob'' @ [CHR 0x0A, CHR 0x0A]"
  "hostBlock (Suc (Suc 0)) sampleBlock overlapConfig' ''*b'' =
     ''Host *b'' @ [CHR 0x0A] @ ''  User bob'' @ [CHR 0x0A, CHR 0x0A]"
  by (simp_all add: hostBlock_def overlap_simps starA_def starB_def namedHost_def NewHost_def
      sampleBlock_def)

lemma cycleConfig_sorted: "sortedNames cycleConfig = [''A'', ''B'']"
  by (simp add: sortedNames_def cycleConfig_def config_New_def)

text \<open>
  C7.  On the configuration in which host A inherits from B and B from A, the serializer
  emits nothing: \<^verbatim>\<open>WriteSSHConfigTo\<close> calls \<^verbatim>\<open>computeHost\<close> for the first sorted name,
  \<open>A\<close>, and that call never returns (C1), whatever the version, the clock and the
  printer of a block are.  With any amount of fuel the render runs out of it.
\<close>

theorem serializer_never_returns_on_cycle:
  "\<forall>n ver now wr. WriteSSHConfigTo n ver now wr cycleConfig = None"
proof (intro allI)
  fix n ver now and wr :: "Host \<Rightarrow> string"
  have a: "map_of (Hosts cycleConfig) ''A'' = Some cycleA"
    and b: "map_of (Hosts cycleConfig) ''B'' = Some cycleB"
    by (simp_all add: cycleConfig_def config_New_def)
  have ia: "''B'' \<in> set (Inherits cycleA)" and ib: "''A'' \<in> set (Inherits cycleB)"
    by (simp_all add: cycleA_def cycleB_def)
  have "computeHost n (Some cycleA) cycleConfig ''A'' False = None"
    using cycle_diverges [OF a b ia ib, of n False] by simp
  then have "writeHosts n wr cycleConfig (sortedNames cycleConfig) = None"
    by (simp add: cycleConfig_sorted a)
  then show "WriteSSHConfigTo n ver now wr cycleConfig = None"
    by (simp add: WriteSSHConfigTo_def)
qed

text \<open>
  C8.  The two configurations hold the same map: the same entries, every lookup equal,
  every other field equal; they differ in the order in which \<^verbatim>\<open>range\<close> visits the first
  two entries, which Go leaves open from one iteration to the next.  The host \<open>x\<close>
  inherits from \<open>ab\<close>, which is no key and matches both \<^verbatim>\<open>a*\<close> and \<^verbatim>\<open>*b\<close>: the
  pattern visited first wins.  With the same version and the same clock the two renders
  differ in the block of \<open>x\<close>.
\<close>

theorem render_depends_on_map_order:
  "mset (Hosts overlapConfig') = mset (Hosts overlapConfig) \<and>
   overlapConfig' = overlapConfig\<lparr>Hosts := Hosts overlapConfig'\<rparr> \<and>
   (\<forall>k. map_of (Hosts overlapConfig') k = map_of (Hosts overlapConfig) k) \<and>
   hostBlock 2 sampleBlock overlapConfig ''x'' =
     ''Host x'' @ [CHR 0x0A] @ ''  User alice'' @ [CHR 0x0A, CHR 0x0A] \<and>
   hostBlock 2 sampleBlock overlapConfig' ''x'' =
     ''Host x'' @ [CHR 0x0A] @ ''  User bob'' @ [CHR 0x0A, CHR 0x0A] \<and>
   (\<forall>ver now. \<exists>out out'.
      WriteSSHConfigTo 2 ver now sampleBlock overlapConfig =
        Some (Inr (out, overlapConfig\<lparr>Defaults := (Defaults overlapConfig)\<lparr>name := ''*''\<rparr>\<rparr>)) \<and>
      WriteSSHConfigTo 2 ver now sampleBlock overlapConfig' =
        Some (Inr (out', overlapConfig'\<lparr>Defaults := (Defaults overlapConfig')\<lparr>name := ''*''\<rparr>\<rparr>)) \<and>
      out \<noteq> out')"
proof -
  have two: "(2::nat) = Suc (Suc 0)" by simp
  have m: "mset (Hosts overlapConfig') = mset (Hosts overlapConfig)"
    by (simp add: overlap_simps)
  have k: "\<forall>k. map_of (Hosts overlapConfig') k = map_of (Hosts overlapConfig) k"
    by (simp add: overlap_simps)
  have e: "overlapConfig' = overlapConfig\<lparr>Hosts := Hosts overlapConfig'\<rparr>"
    by (simp add: overlapConfig_def overlapConfig'_def)
  have r: "\<forall>nm\<in>set (map fst (Hosts overlapConfig)).
             computeHost (Suc (Suc 0)) (map_of (Hosts overlapConfig) nm) overlapConfig nm False \<noteq> None"
    using overlap_x(1) overlap_stars(1,3)
    by (auto simp: overlap_simps hostBlock_def split: option.splits sum.splits)
  have r': "\<forall>nm\<in>set (map fst (Hosts overlapConfig')).
             computeHost (Suc (Suc 0)) (map_of (Hosts overlapConfig') nm) overlapConfig' nm False \<noteq> None"
    using overlap_x(2) overlap_stars(2,4)
    by (auto simp: overlap_simps hostBlock_def split: option.splits sum.splits)
  have d: "\<exists>out out'.
      WriteSSHConfigTo 2 ver now sampleBlock overlapConfig =
        Some (Inr (out, overlapConfig\<lparr>Defaults := (Defaults overlapConfig)\<lparr>name := ''*''\<rparr>\<rparr>)) \<and>
      WriteSSHConfigTo 2 ver now sampleBlock overlapConfig' =
        Some (Inr (out', overlapConfig'\<lparr>Defaults := (Defaults overlapConfig')\<lparr>name := ''*''\<rparr>\<rparr>)) \<and>
      out \<noteq> out'" for ver now
    unfolding two
    by (simp add: writeSSHConfigTo_sorted [OF r] writeSSHConfigTo_sorted [OF r']
        overlap_sorted overlap_x overlap_stars)
  from m k e d overlap_x show ?thesis
    unfolding two by blast
qed

section \<open>Properties of the hook dispatcher\<close>

lemma newDrivers_first_error:
  "\<exists>expr\<in>set h. isl (New kit expr) \<Longrightarrow>
   \<exists>err. newDrivers kit h acc = Inl err \<and> (\<exists>expr\<in>set h. New kit expr = Inl err)"
proof (induction h arbitrary: acc)
  case Nil
  then show ?case by simp
next
  case (Cons expr h)
  show ?case
  proof (cases "New kit expr")
    case (Inl err)
    then show ?thesis by auto
  next
    case (Inr driver)
    with Cons.prems have "\<exists>expr\<in>set h. isl (New kit expr)" by auto
    from Cons.IH [OF this, of "acc @ [driver]"] Inr show ?thesis by auto
  qed
qed

lemma New_unknown: "New sampleKit ''unknownkind foo'' = Inl (NoSuchDriver ''unknownkind'')"
  by (simp add: New_def sampleKit_def)

lemma New_write: "New sampleKit ''write /tmp/x'' = Inr ''write:/tmp/x''"
  by (simp add: New_def sampleKit_def)

text \<open>
  C6.  When some expression of the hook list fails to instantiate (its \<^verbatim>\<open>New\<close> returns an
  error), \<^verbatim>\<open>InvokeAll\<close> returns no drivers and the error of such an expression, and it
  leaves the state as it found it: the list of calls is unchanged, so no \<^verbatim>\<open>Run\<close> was
  invoked, also not on the drivers of earlier expressions that did instantiate.
\<close>

theorem invokeAll_instantiation_failure:
  assumes "\<exists>expr\<in>set h. isl (New kit expr)"
  shows "\<exists>err. InvokeAll kit h args st = (([], Some err), st) \<and>
               (\<exists>expr\<in>set h. New kit expr = Inl err)"
proof -
  from newDrivers_first_error [OF assms, of "[]"]
  obtain err where "newDrivers kit h [] = Inl err" and "\<exists>expr\<in>set h. New kit expr = Inl err"
    by blast
  then show ?thesis by (auto simp: InvokeAll_def)
qed

text \<open>The hook list of the spec's example: the write driver instantiates, the unknown kind
  does not, and nothing is run.\<close>

theorem invokeAll_instantiation_failure_witness:
  "(\<exists>expr\<in>set [''write /tmp/x'', ''unknownkind foo'']. isl (New sampleKit expr)) \<and>
   InvokeAll sampleKit [''write /tmp/x'', ''unknownkind foo''] () ((), []) =
     (([], Some (NoSuchDriver ''unknownkind'')), ((), []))"
proof -
  have h: "\<exists>expr\<in>set [''write /tmp/x'', ''unknownkind foo'']. isl (New sampleKit expr)"
    by (simp add: New_unknown)
  from invokeAll_instantiation_failure [OF h, of "()" "((), [])"]
  show ?thesis using h by (auto simp: New_unknown New_write)
qed

text \<open>
  C5.  Both hook expressions instantiate, and the run of the second driver fails.
  \<^verbatim>\<open>InvokeAll\<close> returns the error of that run, after both runs; the drivers it returns
  are the nil slice, so \<^verbatim>\<open>Close\<close> on what the caller received closes none of the two
  drivers that were instantiated and run.
\<close>

theorem invokeAll_run_failure_loses_drivers:
  "InvokeAll sampleKit [''write /tmp/x'', ''exec false''] () ((), []) =
     (([], Some (DriverError ''exit status 1'')),
      ((), [Ran ''write:/tmp/x'', Ran ''exec:false''])) \<and>
   HookDrivers_Close sampleKit
       (fst (fst (InvokeAll sampleKit [''write /tmp/x'', ''exec false''] () ((), []))))
       (snd (InvokeAll sampleKit [''write /tmp/x'', ''exec false''] () ((), []))) =
     ([], ((), [Ran ''write:/tmp/x'', Ran ''exec:false'']))"
proof -
  have n2: "New sampleKit ''exec false'' = Inr ''exec:false''"
    by (simp add: New_def sampleKit_def)
  have r1: "Run sampleKit ''write:/tmp/x'' () () = (None, ())"
    and r2: "Run sampleKit ''exec:false'' () () = (Some (DriverError ''exit status 1''), ())"
    by (simp_all add: sampleKit_def)
  have "InvokeAll sampleKit [''write /tmp/x'', ''exec false''] () ((), []) =
     (([], Some (DriverError ''exit status 1'')),
      ((), [Ran ''write:/tmp/x'', Ran ''exec:false'']))"
    by (simp add: InvokeAll_def New_write n2 r1 r2)
  then show ?thesis by simp
qed

end
